theory Spec2Isabelle
  imports Main "HOL-Library.Sublist" "HOL-Library.AList"
begin

section \<open>Saved transform graphs: the codec, the signature and the composition\<close>

text \<open>
  A shallow embedding of \<^verbatim>\<open>tensorflow_transform/saved/saved_transform_io.py\<close>.

  \<^item> A Python \<^verbatim>\<open>dict\<close> is an association list with one pair per key, in insertion
    order; \<^verbatim>\<open>d[k] = v\<close> is \<open>AList.update k v d\<close> (a present key keeps its place, a new
    one goes to the end) and \<^verbatim>\<open>d[k]\<close> raises \<^verbatim>\<open>KeyError\<close> on a missing key. Two dicts
    are equal in Python when they hold the same pairs, whatever the order:
    \<open>map_of d = map_of d'\<close>.
  \<^item> A Python \<^verbatim>\<open>set\<close> is a list without repetition. Python fixes no iteration order
    for a set: a loop over a set visits its elements by a rank that is a parameter, so
    that every order is covered. A \<^verbatim>\<open>KeyError\<close> carries no key.
  \<^item> A value of a logical column is a \<^verbatim>\<open>Tensor\<close> or a \<^verbatim>\<open>SparseTensor\<close> of three
    tensors; \<^verbatim>\<open>isinstance(tensor, tf.SparseTensor)\<close> is the case distinction.
  \<^item> Every \<^verbatim>\<open>raise\<close> is a value \<open>Inl e\<close>.
\<close>

subsection \<open>Values and errors\<close>

datatype 't tensor_value =
    is_dense: Dense 't
  | is_sparse: Sparse (indices: 't) (values_of: 't) (dense_shape: 't)

datatype error =
    UnexpectedInput "string set"
      \<comment> \<open>\<^verbatim>\<open>ValueError('Unexpected inputs to transform: {}'.format(unexpected_inputs))\<close>\<close>
  | MissingRequiredInputs "string set"
      \<comment> \<open>\<^verbatim>\<open>ValueError('Missing required inputs to transform: {}'.format(unbound_inputs.keys()))\<close>\<close>
  | UnrecognizedKey string
      \<comment> \<open>\<^verbatim>\<open>ValueError('Unexpected key: {}'.format(key))\<close>\<close>
  | EmptyContract string
      \<comment> \<open>\<^verbatim>\<open>ValueError('inputs cannot be None or empty for prediction.')\<close>, and the same for outputs\<close>
  | AssetsUnsupported
      \<comment> \<open>\<^verbatim>\<open>NotImplementedError('tf.Transform does not yet support assets.')\<close>\<close>
  | NoHostGraph
      \<comment> \<open>\<^verbatim>\<open>RuntimeError('apply_saved_transform() requires a default graph.')\<close>\<close>
  | KeyError
      \<comment> \<open>a lookup \<^verbatim>\<open>d[k]\<close> of a key that \<^verbatim>\<open>d\<close> does not hold\<close>
  | AttributeError
      \<comment> \<open>\<^verbatim>\<open>None.items()\<close>\<close>
  | External string
      \<comment> \<open>whatever a function of TensorFlow or of the SavedModel loader raises\<close>

type_synonym ('k, 'v) dict = "('k \<times> 'v) list"

definition keys :: "('k, 'v) dict \<Rightarrow> 'k list" where
  "keys d = map fst d"

definition getitem :: "('k, 'v) dict \<Rightarrow> 'k \<Rightarrow> error + 'v" where
  "getitem d k = (case map_of d k of None \<Rightarrow> Inl KeyError | Some v \<Rightarrow> Inr v)"

text \<open>A dict comprehension \<^verbatim>\<open>{k: v for ...}\<close> stores the pairs one after the other.\<close>

definition dict_of :: "('k \<times> 'v) list \<Rightarrow> ('k, 'v) dict" where
  "dict_of kvs = fold (\<lambda>(k, v) d. AList.update k v d) kvs []"

text \<open>\<^verbatim>\<open>s.add(x)\<close> on a set.\<close>

definition set_add :: "'a \<Rightarrow> 'a list \<Rightarrow> 'a list" where
  "set_add x s = (if x \<in> set s then s else s @ [x])"

subsection \<open>The two regular expressions\<close>

text \<open>
  \<^verbatim>\<open>_SPARSE_TENSOR_NAME_RE = re.compile(r'(.*)\$(indices|values|dense_shape)$')\<close>
  \<^verbatim>\<open>_DENSE_TENSOR_NAME_RE = re.compile(r'(.*)\$dense_tensor$')\<close>

  Both have the shape \<^verbatim>\<open>(.*)\$(a1|...|an)$\<close> and are used through \<^verbatim>\<open>match\<close>, which
  anchors at the start of the key. No flag is given, so \<^verbatim>\<open>.\<close> matches every character
  but the newline, and \<^verbatim>\<open>$\<close> matches at the end of the string and also just before a
  newline that is its last character. \<^verbatim>\<open>.*\<close> is greedy: the longest run first, then one
  character less at a time. \<open>re_match alts key\<close> is \<^verbatim>\<open>match.group(1)\<close>, or \<open>None\<close>
  when there is no match.
\<close>

definition newline :: char where
  "newline = CHR 0x0A"

definition dollar :: char where
  "dollar = CHR ''$''"

definition at_end :: "string \<Rightarrow> bool" where
  "at_end r \<longleftrightarrow> r = [] \<or> r = [newline]"

definition tail_matches :: "string list \<Rightarrow> string \<Rightarrow> bool" where
  "tail_matches alts r =
     (case r of
        [] \<Rightarrow> False
      | c # r' \<Rightarrow> c = dollar \<and> list_ex (\<lambda>a. prefix a r' \<and> at_end (drop (length a) r')) alts)"

fun backtrack :: "string list \<Rightarrow> string \<Rightarrow> nat \<Rightarrow> string option" where
  "backtrack alts s 0 = (if tail_matches alts s then Some [] else None)"
| "backtrack alts s (Suc n) =
     (if tail_matches alts (drop (Suc n) s) then Some (take (Suc n) s)
      else backtrack alts s n)"

definition re_match :: "string list \<Rightarrow> string \<Rightarrow> string option" where
  "re_match alts s = backtrack alts s (length (takeWhile (\<lambda>c. c \<noteq> newline) s))"

definition sparse_suffixes :: "string list" where
  "sparse_suffixes = [''indices'', ''values'', ''dense_shape'']"

definition dense_suffixes :: "string list" where
  "dense_suffixes = [''dense_tensor'']"

definition all_suffixes :: "string list" where
  "all_suffixes = sparse_suffixes @ dense_suffixes"

definition SPARSE_TENSOR_NAME_RE :: "string \<Rightarrow> string option" where
  "SPARSE_TENSOR_NAME_RE = re_match sparse_suffixes"

definition DENSE_TENSOR_NAME_RE :: "string \<Rightarrow> string option" where
  "DENSE_TENSOR_NAME_RE = re_match dense_suffixes"

subsection \<open>The codec\<close>

text \<open>One turn of the loop of \<^verbatim>\<open>_decompose_sparse_tensors\<close>.\<close>

fun decompose_step :: "string \<times> 't tensor_value \<Rightarrow> (string, 't) dict \<Rightarrow> (string, 't) dict" where
  "decompose_step (key, Sparse i v d) result =
     AList.update (key @ ''$dense_shape'') d
       (AList.update (key @ ''$values'') v
         (AList.update (key @ ''$indices'') i result))"
| "decompose_step (key, Dense t) result =
     AList.update (key @ ''$dense_tensor'') t result"

definition decompose_sparse_tensors :: "(string, 't tensor_value) dict \<Rightarrow> (string, 't) dict" where
  "decompose_sparse_tensors tensor_map = fold decompose_step tensor_map []"

text \<open>
  What Python and TensorFlow leave open to the recomposition: the order in which a loop
  visits a set, and what the constructor \<^verbatim>\<open>tf.SparseTensor\<close> raises on three parts, if
  anything (it checks their types and shapes). A loop over a set visits the elements by
  rank, elements of equal rank in the order they were added; every order of visit is the
  order of some rank.
\<close>

record 't runtime =
  sparse_tensor_raises :: "'t \<Rightarrow> 't \<Rightarrow> 't \<Rightarrow> string option"
  visit_rank :: "string \<Rightarrow> nat"

definition iteration :: "'t runtime \<Rightarrow> string list \<Rightarrow> string list" where
  "iteration rt s = sort_key (visit_rank rt) s"

text \<open>
  The first loop of \<^verbatim>\<open>_recompose_sparse_tensors\<close>: every key goes to the sparse names or
  to the dense names, the sparse expression tried first; a key that neither expression
  matches raises.
\<close>

fun partition_keys ::
  "string list \<Rightarrow> string list \<Rightarrow> string list \<Rightarrow> error + (string list \<times> string list)" where
  "partition_keys [] sparse_keys dense_keys = Inr (sparse_keys, dense_keys)"
| "partition_keys (key # ks) sparse_keys dense_keys =
     (case SPARSE_TENSOR_NAME_RE key of
        Some g \<Rightarrow> partition_keys ks (set_add g sparse_keys) dense_keys
      | None \<Rightarrow>
          (case DENSE_TENSOR_NAME_RE key of
             Some g \<Rightarrow> partition_keys ks sparse_keys (set_add g dense_keys)
           | None \<Rightarrow> Inl (UnrecognizedKey key)))"

text \<open>
  The second loop. The three parts are looked up from left to right, and then
  \<^verbatim>\<open>tf.SparseTensor(indices, values, dense_shape)\<close> is called, which raises when it
  refuses the parts.
\<close>

fun recompose_sparse ::
  "'t runtime \<Rightarrow> (string, 't) dict \<Rightarrow> string list \<Rightarrow> (string, 't tensor_value) dict
     \<Rightarrow> error + (string, 't tensor_value) dict" where
  "recompose_sparse rt tensor_map [] result = Inr result"
| "recompose_sparse rt tensor_map (key # ks) result =
     (case getitem tensor_map (key @ ''$indices'') of
        Inl e \<Rightarrow> Inl e
      | Inr i \<Rightarrow>
          (case getitem tensor_map (key @ ''$values'') of
             Inl e \<Rightarrow> Inl e
           | Inr v \<Rightarrow>
               (case getitem tensor_map (key @ ''$dense_shape'') of
                  Inl e \<Rightarrow> Inl e
                | Inr d \<Rightarrow>
                    (case sparse_tensor_raises rt i v d of
                       Some x \<Rightarrow> Inl (External x)
                     | None \<Rightarrow>
                         recompose_sparse rt tensor_map ks
                           (AList.update key (Sparse i v d) result)))))"

text \<open>The third loop.\<close>

fun recompose_dense ::
  "(string, 't) dict \<Rightarrow> string list \<Rightarrow> (string, 't tensor_value) dict
     \<Rightarrow> error + (string, 't tensor_value) dict" where
  "recompose_dense tensor_map [] result = Inr result"
| "recompose_dense tensor_map (key # ks) result =
     (case getitem tensor_map (key @ ''$dense_tensor'') of
        Inl e \<Rightarrow> Inl e
      | Inr t \<Rightarrow> recompose_dense tensor_map ks (AList.update key (Dense t) result))"

text \<open>The two sets are visited in the order of the runtime, the sparse names first.\<close>

definition recompose_sparse_tensors ::
  "'t runtime \<Rightarrow> (string, 't) dict \<Rightarrow> error + (string, 't tensor_value) dict" where
  "recompose_sparse_tensors rt tensor_map =
     (case partition_keys (keys tensor_map) [] [] of
        Inl e \<Rightarrow> Inl e
      | Inr (sparse_keys, dense_keys) \<Rightarrow>
          (case recompose_sparse rt tensor_map (iteration rt sparse_keys) [] of
             Inl e \<Rightarrow> Inl e
           | Inr result \<Rightarrow> recompose_dense tensor_map (iteration rt dense_keys) result))"

subsection \<open>Signatures and the collaborators\<close>

text \<open>
  The SavedModel loader (\<^verbatim>\<open>tensorflow_transform.saved.saved_model_loader\<close>), the graph
  of TensorFlow and the SavedModel builder are not part of the file. They are parameters:
  each function takes the collaborators it calls as a record of functions, and what a
  collaborator raises is a string, turned into \<open>External\<close>. The two constants of
  \<^verbatim>\<open>constants.py\<close> are the ones the docstrings give.
\<close>

record tensor_info =
  name :: string

record signature_def =
  inputs :: "(string, tensor_info) dict"
  outputs :: "(string, tensor_info) dict"
  method_name :: string

definition TRANSFORM_TAG :: string where
  "TRANSFORM_TAG = ''transform''"

definition TRANSFORM_SIGNATURE :: string where
  "TRANSFORM_SIGNATURE = ''transform_signature''"

definition PREDICT_METHOD_NAME :: string where
  "PREDICT_METHOD_NAME = ''tensorflow/serving/predict''"

record ('sm, 'mg) saved_model_loader =
  parse_saved_model :: "string \<Rightarrow> string + 'sm"
  choose_meta_graph_def :: "'sm \<Rightarrow> string list \<Rightarrow> string + 'mg"
  signature_def_of :: "'mg \<Rightarrow> string \<Rightarrow> string + signature_def"
    \<comment> \<open>\<^verbatim>\<open>meta_graph_def.signature_def[key]\<close>\<close>
  get_asset_tensors :: "string \<Rightarrow> 'mg \<Rightarrow> string + (string, string) dict"

record ('mg, 'g, 't) tf_graph =
  unique_name :: "'g \<Rightarrow> string \<Rightarrow> string"
    \<comment> \<open>\<^verbatim>\<open>graph.unique_name(name, mark_as_used=False)\<close>: the graph is not changed\<close>
  import_meta_graph :: "'mg \<Rightarrow> string \<Rightarrow> (string, 't) dict \<Rightarrow> 'g \<Rightarrow> (string + bool) \<times> 'g"
    \<comment> \<open>the graph after the import, and whether a saver came back\<close>
  get_tensor_by_name :: "'g \<Rightarrow> string \<Rightarrow> string + 't"
  prepend_name_scope :: "string \<Rightarrow> string \<Rightarrow> string"

record ('ss, 't) tf_builder =
  build_tensor_info :: "'t \<Rightarrow> tensor_info"
  add_meta_graph_and_save ::
    "string \<Rightarrow> 'ss \<Rightarrow> string list \<Rightarrow> (string, signature_def) dict \<Rightarrow> bool \<Rightarrow> string + unit"
    \<comment> \<open>\<^verbatim>\<open>SavedModelBuilder(export_path)\<close>, \<^verbatim>\<open>add_meta_graph_and_variables\<close>, \<^verbatim>\<open>save(as_text)\<close>\<close>

definition external :: "string + 'a \<Rightarrow> error + 'a" where
  "external r = (case r of Inl x \<Rightarrow> Inl (External x) | Inr a \<Rightarrow> Inr a)"

text \<open>The items of a comprehension, computed from left to right; the first raise ends it.\<close>

fun collect :: "('a \<Rightarrow> error + 'b) \<Rightarrow> 'a list \<Rightarrow> error + 'b list" where
  "collect f [] = Inr []"
| "collect f (x # xs) =
     (case f x of
        Inl e \<Rightarrow> Inl e
      | Inr y \<Rightarrow> (case collect f xs of Inl e \<Rightarrow> Inl e | Inr ys \<Rightarrow> Inr (y # ys)))"

subsection \<open>Loading\<close>

definition load_transform_saved_model ::
  "('sm, 'mg) saved_model_loader \<Rightarrow> string
     \<Rightarrow> error + ('mg \<times> (string, string) dict \<times> (string, string) dict)" where
  "load_transform_saved_model loader transform_savedmodel_dir =
     (case external (parse_saved_model loader transform_savedmodel_dir) of
        Inl e \<Rightarrow> Inl e
      | Inr saved_model \<Rightarrow>
     (case external (choose_meta_graph_def loader saved_model [TRANSFORM_TAG]) of
        Inl e \<Rightarrow> Inl e
      | Inr meta_graph_def \<Rightarrow>
     (case external (signature_def_of loader meta_graph_def TRANSFORM_SIGNATURE) of
        Inl e \<Rightarrow> Inl e
      | Inr signature \<Rightarrow>
          let input_signature =
                dict_of (map (\<lambda>(logical_name, info). (logical_name, name info)) (inputs signature));
              output_signature =
                dict_of (map (\<lambda>(logical_name, info). (logical_name, name info)) (outputs signature))
          in
     (case external (get_asset_tensors loader transform_savedmodel_dir meta_graph_def) of
        Inl e \<Rightarrow> Inl e
      | Inr init_feed_dict \<Rightarrow>
          if init_feed_dict \<noteq> [] then Inl AssetsUnsupported
          else Inr (meta_graph_def, input_signature, output_signature)))))"

subsection \<open>Composition\<close>

text \<open>
  \<^verbatim>\<open>input_map = {input_signature[k]: decomposed_input_tensors[k] for k in decomposed_input_tensors}\<close>
\<close>

definition build_input_map ::
  "(string, string) dict \<Rightarrow> (string, 't) dict \<Rightarrow> error + (string, 't) dict" where
  "build_input_map input_signature decomposed_input_tensors =
     (case collect
             (\<lambda>decomposed_logical_name.
                case getitem input_signature decomposed_logical_name of
                  Inl e \<Rightarrow> Inl e
                | Inr tensor_name \<Rightarrow>
                    (case getitem decomposed_input_tensors decomposed_logical_name of
                       Inl e \<Rightarrow> Inl e
                     | Inr t \<Rightarrow> Inr (tensor_name, t)))
             (keys decomposed_input_tensors) of
        Inl e \<Rightarrow> Inl e
      | Inr kvs \<Rightarrow> Inr (dict_of kvs))"

definition scoped_lookup :: "('mg, 'g, 't) tf_graph \<Rightarrow> 'g \<Rightarrow> string \<Rightarrow> string \<Rightarrow> error + 't" where
  "scoped_lookup tf graph scope tensor_name =
     external (get_tensor_by_name tf graph (prepend_name_scope tf tensor_name scope))"

definition lookup_remapped_tensor ::
  "('mg, 'g, 't) tf_graph \<Rightarrow> 'g \<Rightarrow> string \<Rightarrow> (string, 't) dict \<Rightarrow> string \<Rightarrow> error + 't" where
  "lookup_remapped_tensor tf graph scope input_map tensor_name =
     (if tensor_name \<in> set (keys input_map) then getitem input_map tensor_name
      else scoped_lookup tf graph scope tensor_name)"

definition resolve_outputs ::
  "('mg, 'g, 't) tf_graph \<Rightarrow> 'g \<Rightarrow> string \<Rightarrow> (string, 't) dict \<Rightarrow> (string, string) dict
     \<Rightarrow> error + (string, 't) dict" where
  "resolve_outputs tf graph scope input_map output_signature =
     (case collect
             (\<lambda>(decomposed_logical_name, tensor_name).
                case lookup_remapped_tensor tf graph scope input_map tensor_name of
                  Inl e \<Rightarrow> Inl e
                | Inr t \<Rightarrow> Inr (decomposed_logical_name, t))
             output_signature of
        Inl e \<Rightarrow> Inl e
      | Inr kvs \<Rightarrow> Inr (dict_of kvs))"

definition resolve_unbound_inputs ::
  "('mg, 'g, 't) tf_graph \<Rightarrow> 'g \<Rightarrow> string \<Rightarrow> (string, 't) dict \<Rightarrow> (string, string) dict
     \<Rightarrow> error + (string, 't) dict" where
  "resolve_unbound_inputs tf graph scope decomposed_input_tensors input_signature =
     (case collect
             (\<lambda>(decomposed_logical_name, tensor_name).
                case scoped_lookup tf graph scope tensor_name of
                  Inl e \<Rightarrow> Inl e
                | Inr t \<Rightarrow> Inr (decomposed_logical_name, t))
             (filter (\<lambda>(decomposed_logical_name, tensor_name).
                        decomposed_logical_name \<notin> set (keys decomposed_input_tensors))
                     input_signature) of
        Inl e \<Rightarrow> Inl e
      | Inr kvs \<Rightarrow> Inr (dict_of kvs))"

text \<open>
  The default graph is the state: \<open>None\<close> when there is none. The function returns its
  result, or what it raised, together with the default graph it leaves behind. The warning
  logged when the import returns a saver changes neither.
\<close>

definition partially_apply_saved_transform ::
  "('sm, 'mg) saved_model_loader \<Rightarrow> ('mg, 'g, 't) tf_graph \<Rightarrow> 't runtime \<Rightarrow> string
     \<Rightarrow> (string, 't tensor_value) dict \<Rightarrow> 'g option
     \<Rightarrow> (error + ((string, 't tensor_value) dict \<times> (string, 't tensor_value) dict)) \<times> 'g option" where
  "partially_apply_saved_transform loader tf rt saved_model_dir input_tensors default_graph =
     (let decomposed_input_tensors = decompose_sparse_tensors input_tensors in
      case load_transform_saved_model loader saved_model_dir of
        Inl e \<Rightarrow> (Inl e, default_graph)
      | Inr (meta_graph_def, input_signature, output_signature) \<Rightarrow>
          let unexpected_inputs = set (keys decomposed_input_tensors) - set (keys input_signature) in
          if unexpected_inputs \<noteq> {} then (Inl (UnexpectedInput unexpected_inputs), default_graph)
          else
     (case build_input_map input_signature decomposed_input_tensors of
        Inl e \<Rightarrow> (Inl e, default_graph)
      | Inr input_map \<Rightarrow>
     (case default_graph of
        None \<Rightarrow> (Inl NoHostGraph, default_graph)
      | Some graph \<Rightarrow>
          let scope = unique_name tf graph ''transform'' in
     (case import_meta_graph tf meta_graph_def scope input_map graph of
        (Inl x, graph') \<Rightarrow> (Inl (External x), Some graph')
      | (Inr saver, graph') \<Rightarrow>
     (case resolve_outputs tf graph' scope input_map output_signature of
        Inl e \<Rightarrow> (Inl e, Some graph')
      | Inr decomposed_output_tensors \<Rightarrow>
     (case resolve_unbound_inputs tf graph' scope decomposed_input_tensors input_signature of
        Inl e \<Rightarrow> (Inl e, Some graph')
      | Inr decomposed_unbound_input_tensors \<Rightarrow>
     (case recompose_sparse_tensors rt decomposed_output_tensors of
        Inl e \<Rightarrow> (Inl e, Some graph')
      | Inr outputs' \<Rightarrow>
     (case recompose_sparse_tensors rt decomposed_unbound_input_tensors of
        Inl e \<Rightarrow> (Inl e, Some graph')
      | Inr unbound_inputs \<Rightarrow> (Inr (unbound_inputs, outputs'), Some graph')))))))))"

definition apply_saved_transform ::
  "('sm, 'mg) saved_model_loader \<Rightarrow> ('mg, 'g, 't) tf_graph \<Rightarrow> 't runtime \<Rightarrow> string
     \<Rightarrow> (string, 't tensor_value) dict \<Rightarrow> 'g option
     \<Rightarrow> (error + (string, 't tensor_value) dict) \<times> 'g option" where
  "apply_saved_transform loader tf rt saved_model_dir input_tensors default_graph =
     (case partially_apply_saved_transform loader tf rt saved_model_dir input_tensors default_graph of
        (Inl e, graph') \<Rightarrow> (Inl e, graph')
      | (Inr (unbound_inputs, outputs'), graph') \<Rightarrow>
          if unbound_inputs \<noteq> [] then (Inl (MissingRequiredInputs (set (keys unbound_inputs))), graph')
          else (Inr outputs', graph'))"

subsection \<open>Freezing\<close>

text \<open>An argument of \<^verbatim>\<open>_predict_signature_def\<close> may be \<^verbatim>\<open>None\<close>: a \<open>dict option\<close>.\<close>

definition predict_signature_def ::
  "('ss, 't) tf_builder \<Rightarrow> (string, 't) dict option \<Rightarrow> (string, 't) dict option
     \<Rightarrow> error + signature_def" where
  "predict_signature_def builder inputs' outputs' =
     (if inputs' = None \<or> the inputs' = [] then
        Inl (EmptyContract ''inputs cannot be None or empty for prediction.'')
      else if outputs' = None then
        Inl (EmptyContract ''outputs cannot be None or empty for prediction.'')
      else
        let signature_inputs = dict_of (map (\<lambda>(key, t). (key, build_tensor_info builder t)) (the inputs'));
            signature_outputs = dict_of (map (\<lambda>(key, t). (key, build_tensor_info builder t)) (the outputs'))
        in Inr \<lparr>inputs = signature_inputs, outputs = signature_outputs,
                method_name = PREDICT_METHOD_NAME\<rparr>)"

text \<open>
  \<^verbatim>\<open>_decompose_sparse_tensors(None)\<close> raises on \<^verbatim>\<open>None.items()\<close>, the inputs before the
  outputs.
\<close>

definition write_saved_transform_from_session ::
  "('ss, 't) tf_builder \<Rightarrow> 'ss \<Rightarrow> (string, 't tensor_value) dict option
     \<Rightarrow> (string, 't tensor_value) dict option \<Rightarrow> string \<Rightarrow> bool \<Rightarrow> error + unit" where
  "write_saved_transform_from_session builder session inputs' outputs' export_path as_text =
     (case inputs' of
        None \<Rightarrow> Inl AttributeError
      | Some ins \<Rightarrow>
     (case outputs' of
        None \<Rightarrow> Inl AttributeError
      | Some outs \<Rightarrow>
     (case predict_signature_def builder
             (Some (decompose_sparse_tensors ins)) (Some (decompose_sparse_tensors outs)) of
        Inl e \<Rightarrow> Inl e
      | Inr predict_signature \<Rightarrow>
          external (add_meta_graph_and_save builder export_path session [TRANSFORM_TAG]
                      [(''transform_signature'', predict_signature)] as_text))))"

subsection \<open>An instance of the collaborators\<close>

text \<open>
  To run the functions on examples, the smallest collaborators that do the job: a meta
  graph is its signature together with the names of its tensors, a graph is a dict from
  tensor names to tensors, a tensor is its name, and the import adds the tensors of the
  fragment that the input map does not replace, each under the scope. The constructor of
  sparse tensors refuses the indices named \<open>float32\<close>, and sets are visited in the order
  their elements were added.
\<close>

type_synonym demo_meta_graph = "signature_def \<times> string list"

definition demo_loader ::
  "demo_meta_graph \<Rightarrow> (string, string) dict
     \<Rightarrow> (demo_meta_graph, demo_meta_graph) saved_model_loader" where
  "demo_loader mg assets =
     \<lparr>parse_saved_model = (\<lambda>dir. Inr mg),
      choose_meta_graph_def = (\<lambda>sm tags. Inr sm),
      signature_def_of = (\<lambda>m key. Inr (fst m)),
      get_asset_tensors = (\<lambda>dir m. Inr assets)\<rparr>"

definition demo_tf :: "(demo_meta_graph, (string, string) dict, string) tf_graph" where
  "demo_tf =
     \<lparr>unique_name = (\<lambda>g n. n),
      import_meta_graph = (\<lambda>mg scope input_map g.
         (Inr False,
          g @ map (\<lambda>n. (scope @ ''/'' @ n, scope @ ''/'' @ n))
                (filter (\<lambda>n. n \<notin> set (keys input_map)) (snd mg)))),
      get_tensor_by_name = (\<lambda>g n.
         case map_of g n of None \<Rightarrow> Inl ''no such tensor'' | Some t \<Rightarrow> Inr t),
      prepend_name_scope = (\<lambda>n scope. scope @ ''/'' @ n)\<rparr>"

definition demo_runtime :: "string runtime" where
  "demo_runtime =
     \<lparr>sparse_tensor_raises = (\<lambda>i v d.
         if i = ''float32'' then Some ''indices: expected int64'' else None),
      visit_rank = (\<lambda>n. 0)\<rparr>"

definition demo_builder :: "(unit, string) tf_builder" where
  "demo_builder =
     \<lparr>build_tensor_info = (\<lambda>t. \<lparr>name = t\<rparr>),
      add_meta_graph_and_save = (\<lambda>export_path session tags signature_def_map as_text. Inr ())\<rparr>"

text \<open>
  A fragment with the given flat input and output keys; the tensor of the key \<open>k\<close> is
  named \<open>k:0\<close>.
\<close>

definition demo_fragment :: "string list \<Rightarrow> string list \<Rightarrow> demo_meta_graph" where
  "demo_fragment ins outs =
     (\<lparr>inputs = map (\<lambda>k. (k, \<lparr>name = k @ '':0''\<rparr>)) ins,
       outputs = map (\<lambda>k. (k, \<lparr>name = k @ '':0''\<rparr>)) outs,
       method_name = PREDICT_METHOD_NAME\<rparr>,
      map (\<lambda>k. k @ '':0'') (ins @ outs))"

section \<open>Properties\<close>

subsection \<open>What the regular expressions match\<close>

lemma tail_matches_iff:
  "tail_matches alts r \<longleftrightarrow> (\<exists>a \<in> set alts. \<exists>t. at_end t \<and> r = dollar # a @ t)"
proof (cases r)
  case Nil
  then show ?thesis by (simp add: tail_matches_def)
next
  case (Cons c r')
  have "(\<exists>a \<in> set alts. prefix a r' \<and> at_end (drop (length a) r'))
        \<longleftrightarrow> (\<exists>a \<in> set alts. \<exists>t. at_end t \<and> r' = a @ t)"
    by (fastforce simp: prefix_def)
  with Cons show ?thesis
    by (auto simp: tail_matches_def list_ex_iff)
qed

lemma backtrack_Some:
  "backtrack alts s n = Some g \<Longrightarrow> \<exists>k \<le> n. g = take k s \<and> tail_matches alts (drop k s)"
proof (induction n)
  case 0
  then show ?case by (auto split: if_splits)
next
  case (Suc n)
  show ?case
  proof (cases "tail_matches alts (drop (Suc n) s)")
    case True
    with Suc.prems show ?thesis by auto
  next
    case False
    with Suc.prems have "backtrack alts s n = Some g" by simp
    from Suc.IH [OF this] show ?thesis using le_Suc_eq by blast
  qed
qed

lemma backtrack_None:
  "backtrack alts s n = None \<longleftrightarrow> (\<forall>k \<le> n. \<not> tail_matches alts (drop k s))"
proof (induction n)
  case 0
  then show ?case by simp
next
  case (Suc n)
  then show ?case by (auto simp: le_Suc_eq)
qed

lemma backtrack_greedy:
  assumes "k \<le> n" and "tail_matches alts (drop k s)"
      and "\<And>j. k < j \<Longrightarrow> j \<le> n \<Longrightarrow> \<not> tail_matches alts (drop j s)"
  shows "backtrack alts s n = Some (take k s)"
  using assms
proof (induction n)
  case 0
  then show ?case by simp
next
  case (Suc n)
  show ?case
  proof (cases "k = Suc n")
    case True
    with Suc.prems show ?thesis by simp
  next
    case False
    with Suc.prems have "k \<le> n" by simp
    moreover from False Suc.prems have "\<not> tail_matches alts (drop (Suc n) s)" by simp
    ultimately show ?thesis using Suc by simp
  qed
qed

lemma re_match_Some:
  assumes "re_match alts s = Some g"
  shows "\<exists>a \<in> set alts. \<exists>t. at_end t \<and> s = g @ dollar # a @ t \<and> newline \<notin> set g"
proof -
  let ?w = "takeWhile (\<lambda>c. c \<noteq> newline) s"
  from assms obtain k where k: "k \<le> length ?w" "g = take k s" "tail_matches alts (drop k s)"
    unfolding re_match_def by (blast dest: backtrack_Some)
  have "take k s = take k ?w"
    using k(1) by (metis append_eq_conv_conj takeWhile_dropWhile_id take_append min.absorb2 length_take take_all_iff order_refl take_take)
  then have "set g \<subseteq> set ?w" using k(2) by (metis set_take_subset)
  then have "newline \<notin> set g" by (auto dest: set_takeWhileD)
  moreover from k(3) obtain a t where "a \<in> set alts" "at_end t" "drop k s = dollar # a @ t"
    by (auto simp: tail_matches_iff)
  moreover have "s = take k s @ drop k s" by simp
  ultimately show ?thesis using k(2) by metis
qed

lemma re_match_complete:
  assumes "a \<in> set alts" "at_end t" "newline \<notin> set g"
  shows "re_match alts (g @ dollar # a @ t) \<noteq> None"
proof -
  let ?s = "g @ dollar # a @ t"
  have "takeWhile (\<lambda>c. c \<noteq> newline) ?s = g @ takeWhile (\<lambda>c. c \<noteq> newline) (dollar # a @ t)"
    using assms(3) by (intro takeWhile_append2) auto
  then have "length g \<le> length (takeWhile (\<lambda>c. c \<noteq> newline) ?s)" by simp
  moreover have "tail_matches alts (drop (length g) ?s)"
    using assms(1,2) by (auto simp: tail_matches_iff)
  ultimately show ?thesis
    unfolding re_match_def by (auto simp: backtrack_None simp del: drop_append append_eq_append_conv)
qed

lemma re_match_exact:
  assumes "a \<in> set alts" "newline \<notin> set g"
      and "\<And>b. b \<in> set alts \<Longrightarrow> dollar \<notin> set b \<and> newline \<notin> set b"
  shows "re_match alts (g @ dollar # a) = Some g"
proof -
  let ?s = "g @ dollar # a"
  have nl: "newline \<notin> set ?s" using assms by (auto simp: newline_def dollar_def)
  then have w: "takeWhile (\<lambda>c. c \<noteq> newline) ?s = ?s"
    by (metis (mono_tags, lifting) takeWhile_eq_all_conv)
  have tm: "tail_matches alts (drop (length g) ?s)"
    using assms(1) by (auto simp: tail_matches_iff at_end_def)
  have no: "\<not> tail_matches alts (drop j ?s)" if "length g < j" for j
  proof
    assume "tail_matches alts (drop j ?s)"
    then obtain r where r: "drop j ?s = dollar # r" by (auto simp: tail_matches_iff)
    from that have "drop j ?s = drop (j - Suc (length g)) a"
      by (simp add: Suc_diff_Suc less_imp_le drop_Cons')
    with r have "dollar \<in> set a" by (metis in_set_dropD list.set_intros(1))
    with assms(1,3) show False by blast
  qed
  have "backtrack alts ?s (length ?s) = Some (take (length g) ?s)"
    by (rule backtrack_greedy) (use tm no in auto)
  then show ?thesis unfolding re_match_def w by simp
qed

subsection \<open>The flat keys\<close>

lemma split_at_last_dollar:
  assumes "g1 @ dollar # a1 = g2 @ dollar # a2" "dollar \<notin> set a1" "dollar \<notin> set a2"
  shows "g1 = g2 \<and> a1 = a2"
proof -
  have "takeWhile (\<lambda>c. c \<noteq> dollar) (rev (g @ dollar # a)) = rev a" if "dollar \<notin> set a" for g a
  proof -
    have "takeWhile (\<lambda>c. c \<noteq> dollar) (rev a @ dollar # rev g) = rev a @ takeWhile (\<lambda>c. c \<noteq> dollar) (dollar # rev g)"
      by (rule takeWhile_append2) (use that in auto)
    then show ?thesis by simp
  qed
  from this [OF assms(2), of g1] this [OF assms(3), of g2] assms(1)
  have "a1 = a2" by simp
  with assms(1) show ?thesis by simp
qed

lemma suffix_chars:
  "a \<in> set all_suffixes \<Longrightarrow> dollar \<notin> set a \<and> newline \<notin> set a"
  by (auto simp: all_suffixes_def sparse_suffixes_def dense_suffixes_def dollar_def newline_def)

lemma sparse_in_all: "a \<in> set sparse_suffixes \<Longrightarrow> a \<in> set all_suffixes"
  by (simp add: all_suffixes_def)

lemma dense_in_all: "a \<in> set dense_suffixes \<Longrightarrow> a \<in> set all_suffixes"
  by (simp add: all_suffixes_def)

lemma sparse_not_dense: "a \<in> set sparse_suffixes \<Longrightarrow> a \<notin> set dense_suffixes"
  by (auto simp: sparse_suffixes_def dense_suffixes_def)

text \<open>The flat keys of one entry.\<close>

lemma keys_decompose_step:
  "keys (decompose_step (n, v) []) =
     map (\<lambda>a. n @ dollar # a) (if is_sparse v then sparse_suffixes else dense_suffixes)"
  by (cases v) (simp_all add: keys_def sparse_suffixes_def dense_suffixes_def dollar_def)

lemma fold_update_fresh:
  "distinct (map fst (acc @ kvs)) \<Longrightarrow> fold (\<lambda>(k, v) d. AList.update k v d) kvs acc = acc @ kvs"
proof (induction kvs arbitrary: acc)
  case Nil
  then show ?case by simp
next
  case (Cons kv kvs)
  obtain k v where kv: "kv = (k, v)" by (cases kv)
  from Cons.prems kv have "k \<notin> fst ` set acc" by auto
  then have "AList.update k v acc = acc @ [(k, v)]"
    by (induction acc) auto
  moreover from Cons.prems kv have "distinct (map fst ((acc @ [(k, v)]) @ kvs))" by simp
  ultimately show ?case using Cons.IH [of "acc @ [(k, v)]"] kv by simp
qed

lemma decompose_step_fold:
  "decompose_step p acc = fold (\<lambda>(k, v) d. AList.update k v d) (decompose_step p []) acc"
proof (cases p)
  case (Pair n v)
  then show ?thesis by (cases v) simp_all
qed

lemma fold_decompose_step:
  "fold decompose_step x acc =
     fold (\<lambda>(k, v) d. AList.update k v d) (concat (map (\<lambda>p. decompose_step p []) x)) acc"
proof (induction x arbitrary: acc)
  case Nil
  then show ?case by simp
next
  case (Cons p x)
  show ?case using Cons.IH [of "decompose_step p acc"] decompose_step_fold [of p acc] by simp
qed

lemma keys_concat:
  "keys (concat (map (\<lambda>p. decompose_step p []) x)) = concat (map (\<lambda>p. keys (decompose_step p [])) x)"
  by (simp add: keys_def map_concat comp_def)

lemma flat_key_cases:
  assumes "k \<in> set (keys (concat (map (\<lambda>p. decompose_step p []) x)))"
  shows "\<exists>n v a. (n, v) \<in> set x \<and> k = n @ dollar # a
           \<and> a \<in> set (if is_sparse v then sparse_suffixes else dense_suffixes)"
proof -
  from assms obtain p where p: "p \<in> set x" "k \<in> set (keys (decompose_step p []))"
    unfolding keys_concat by auto
  obtain n v where "p = (n, v)" by (cases p)
  with p have "(n, v) \<in> set x"
    and "k \<in> (\<lambda>a. n @ dollar # a) ` set (if is_sparse v then sparse_suffixes else dense_suffixes)"
    using keys_decompose_step [of n v] by simp_all
  then show ?thesis by blast
qed

lemma distinct_flat_keys:
  assumes "distinct (keys x)"
  shows "distinct (keys (concat (map (\<lambda>p. decompose_step p []) x)))"
  using assms
proof (induction x)
  case Nil
  then show ?case by (simp add: keys_def)
next
  case (Cons p x)
  obtain n v where p: "p = (n, v)" by (cases p)
  let ?sfx = "if is_sparse v then sparse_suffixes else dense_suffixes"
  have d1: "distinct (keys (decompose_step p []))"
    unfolding p keys_decompose_step
    by (auto simp: distinct_map inj_on_def sparse_suffixes_def dense_suffixes_def)
  have d2: "distinct (keys (concat (map (\<lambda>p. decompose_step p []) x)))"
    using Cons by (simp add: keys_def)
  have disj: "set (keys (decompose_step p [])) \<inter> set (keys (concat (map (\<lambda>p. decompose_step p []) x))) = {}"
  proof (rule ccontr)
    assume "\<not> ?thesis"
    then obtain k where k1: "k \<in> set (keys (decompose_step p []))"
      and k2: "k \<in> set (keys (concat (map (\<lambda>p. decompose_step p []) x)))" by blast
    from k1 obtain a where a: "a \<in> set ?sfx" "k = n @ dollar # a"
      unfolding p keys_decompose_step by auto
    from flat_key_cases [OF k2] obtain n' v' a' where
      b: "(n', v') \<in> set x" "k = n' @ dollar # a'"
         "a' \<in> set (if is_sparse v' then sparse_suffixes else dense_suffixes)" by blast
    have "a \<in> set all_suffixes" "a' \<in> set all_suffixes"
      using a(1) b(3) by (auto simp: all_suffixes_def split: if_splits)
    then have "dollar \<notin> set a" "dollar \<notin> set a'" by (auto dest: suffix_chars)
    with a(2) b(2) have "n = n'" using split_at_last_dollar by blast
    with b(1) Cons.prems p show False by (force simp: keys_def)
  qed
  have "keys (concat (map (\<lambda>p. decompose_step p []) (p # x)))
      = keys (decompose_step p []) @ keys (concat (map (\<lambda>p. decompose_step p []) x))"
    by (simp add: keys_def)
  with d1 d2 disj show ?case by simp
qed

lemma decompose_concat:
  assumes "distinct (keys x)"
  shows "decompose_sparse_tensors x = concat (map (\<lambda>p. decompose_step p []) x)"
proof -
  have "distinct (map fst ([] @ concat (map (\<lambda>p. decompose_step p []) x)))"
    using distinct_flat_keys [OF assms] by (simp add: keys_def)
  from fold_update_fresh [OF this] show ?thesis
    unfolding decompose_sparse_tensors_def fold_decompose_step by simp
qed

lemma length_decompose_step:
  "length (decompose_step (n, v) []) = (if is_sparse v then 3 else 1)"
  by (cases v) simp_all

lemma length_flat:
  "length (concat (map (\<lambda>p. decompose_step p []) x))
     = length (filter is_dense (map snd x)) + 3 * length (filter is_sparse (map snd x))"
proof (induction x)
  case Nil
  then show ?case by simp
next
  case (Cons p x)
  obtain n v where p: "p = (n, v)" by (cases p)
  show ?case using Cons unfolding p by (cases v) simp_all
qed

lemma keys_decompose_step_cases: "set (keys (decompose_step p []))
           = (case p of (n, v) \<Rightarrow>
                case v of
                  Dense t \<Rightarrow> {n @ ''$dense_tensor''}
                | Sparse i vs d \<Rightarrow> {n @ ''$indices'', n @ ''$values'', n @ ''$dense_shape''})"
      for p :: "string \<times> 'a tensor_value"
    proof (cases p)
      case (Pair n v)
      then show ?thesis by (cases v) (simp_all add: keys_def)
    qed

lemma set_flat_keys_Union:  "set (keys (concat (map (\<lambda>p. decompose_step p []) x))) = (\<Union>p \<in> set x. set (keys (decompose_step p [])))"
      unfolding keys_concat by simp

lemma set_flat_keys: "set (keys (concat (map (\<lambda>p. decompose_step p []) x)))
           = (\<Union>(n, v) \<in> set x.
                case v of
                  Dense t \<Rightarrow> {n @ ''$dense_tensor''}
                | Sparse i vs d \<Rightarrow> {n @ ''$indices'', n @ ''$values'', n @ ''$dense_shape''})"
  unfolding set_flat_keys_Union by (intro SUP_cong refl keys_decompose_step_cases)

text \<open>
  Claim C7. \<^verbatim>\<open>_decompose_sparse_tensors\<close> has no raise (the model is a total function
  that returns a dict). For a dict of \<open>N\<close> dense and \<open>M\<close> sparse values it returns
  \<open>N + 3M\<close> keys, all different: \<open>name$dense_tensor\<close> for a dense value and
  \<open>name$indices\<close>, \<open>name$values\<close>, \<open>name$dense_shape\<close> for a sparse one. Each
  key is \<open>name$suffix\<close> for one pair of a name and one of the four suffixes only,
  whatever characters the names hold.
\<close>

theorem decompose_key_partition:
  assumes "distinct (keys x)"
  shows "length (keys (decompose_sparse_tensors x))
           = length (filter is_dense (map snd x)) + 3 * length (filter is_sparse (map snd x))
       \<and> distinct (keys (decompose_sparse_tensors x))
       \<and> set (keys (decompose_sparse_tensors x))
           = (\<Union>(n, v) \<in> set x.
                case v of
                  Dense t \<Rightarrow> {n @ ''$dense_tensor''}
                | Sparse i vs d \<Rightarrow> {n @ ''$indices'', n @ ''$values'', n @ ''$dense_shape''})
       \<and> (\<forall>k \<in> set (keys (decompose_sparse_tensors x)).
             \<exists>!(n, a). a \<in> set all_suffixes \<and> k = n @ dollar # a)"
proof -
  let ?flat = "concat (map (\<lambda>p. decompose_step p []) x)"
  have eq: "decompose_sparse_tensors x = ?flat" by (rule decompose_concat [OF assms])
  have 1: "length (keys ?flat)
             = length (filter is_dense (map snd x)) + 3 * length (filter is_sparse (map snd x))"
    using length_flat [of x] by (simp add: keys_def)
  have 2: "distinct (keys ?flat)" by (rule distinct_flat_keys [OF assms])
  have 3: "set (keys ?flat)
           = (\<Union>(n, v) \<in> set x.
                case v of
                  Dense t \<Rightarrow> {n @ ''$dense_tensor''}
                | Sparse i vs d \<Rightarrow> {n @ ''$indices'', n @ ''$values'', n @ ''$dense_shape''})"
    by (rule set_flat_keys)
  have 4: "\<exists>!(n, a). a \<in> set all_suffixes \<and> k = n @ dollar # a" if "k \<in> set (keys ?flat)" for k
  proof -
    from flat_key_cases [OF that] obtain n v a where
      a: "k = n @ dollar # a" "a \<in> set (if is_sparse v then sparse_suffixes else dense_suffixes)"
         "(n, v) \<in> set x"
      by blast
    then have s: "a \<in> set all_suffixes" by (auto simp: all_suffixes_def split: if_splits)
    show ?thesis
    proof (rule ex1I [of _ "(n, a)"])
      show "case (n, a) of (n, a) \<Rightarrow> a \<in> set all_suffixes \<and> k = n @ dollar # a"
        using a(1) s by simp
    next
      fix q :: "string \<times> string"
      assume "case q of (n', a') \<Rightarrow> a' \<in> set all_suffixes \<and> k = n' @ dollar # a'"
      then obtain n' a' where q: "q = (n', a')" "a' \<in> set all_suffixes" "k = n' @ dollar # a'"
        by (cases q) simp
      from q(3) a(1) have "n' @ dollar # a' = n @ dollar # a" by simp
      from split_at_last_dollar [OF this] suffix_chars [OF q(2)] suffix_chars [OF s] q(1)
      show "q = (n, a)" by simp
    qed
  qed
  from 1 2 3 4 show ?thesis unfolding eq by blast
qed


theorem decompose_key_partition_witness:
  "distinct (keys [(''a'', Dense (1::nat)), (''b'', Sparse 2 3 4), (''c$values'', Dense 5)])
   \<and> length (keys (decompose_sparse_tensors
        [(''a'', Dense (1::nat)), (''b'', Sparse 2 3 4), (''c$values'', Dense 5)])) = 5
   \<and> distinct (keys (decompose_sparse_tensors
        [(''a'', Dense (1::nat)), (''b'', Sparse 2 3 4), (''c$values'', Dense 5)]))
   \<and> set (keys (decompose_sparse_tensors
        [(''a'', Dense (1::nat)), (''b'', Sparse 2 3 4), (''c$values'', Dense 5)]))
      = {''a$dense_tensor'', ''b$indices'', ''b$values'', ''b$dense_shape'', ''c$values$dense_tensor''}"
proof -
  have d: "distinct (keys [(''a'', Dense (1::nat)), (''b'', Sparse 2 3 4), (''c$values'', Dense 5)])"
    by (simp add: keys_def)
  from decompose_key_partition [OF d] d show ?thesis by auto
qed

lemma keys_update: "set (keys (AList.update k v d)) = insert k (set (keys d))"
  by (simp add: keys_def dom_update)

lemma keys_decompose_step_acc:
  "set (keys (decompose_step p acc)) = set (keys (decompose_step p [])) \<union> set (keys acc)"
proof (cases p)
  case (Pair n v)
  then show ?thesis by (cases v) (auto simp: keys_def dom_update)
qed

lemma keys_fold_decompose_step:
  "set (keys (fold decompose_step x acc)) = (\<Union>p \<in> set x. set (keys (decompose_step p []))) \<union> set (keys acc)"
proof (induction x arbitrary: acc)
  case Nil
  then show ?case by simp
next
  case (Cons p x)
  show ?case unfolding fold_simps Cons.IH keys_decompose_step_acc [of p acc] by auto
qed

lemma keys_decompose:
  "set (keys (decompose_sparse_tensors x)) = (\<Union>p \<in> set x. set (keys (decompose_step p [])))"
  unfolding decompose_sparse_tensors_def keys_fold_decompose_step by (simp add: keys_def)

subsection \<open>Where each error comes from\<close>

lemma external_Inl: "external r = Inl e \<Longrightarrow> \<exists>x. e = External x"
  by (auto simp: external_def split: sum.splits)

lemma load_error:
  "load_transform_saved_model loader dir = Inl e \<Longrightarrow> (\<exists>x. e = External x) \<or> e = AssetsUnsupported"
  unfolding load_transform_saved_model_def Let_def
  by (auto split: sum.splits if_splits dest: external_Inl)

lemma getitem_error: "getitem d k = Inl e \<Longrightarrow> e = KeyError"
  by (auto simp: getitem_def split: option.splits)

lemma collect_error: "collect f xs = Inl e \<Longrightarrow> \<exists>x \<in> set xs. f x = Inl e"
  by (induction xs) (auto split: sum.splits)

lemma build_input_map_error: "build_input_map isig d = Inl e \<Longrightarrow> e = KeyError"
  unfolding build_input_map_def
  by (auto split: sum.splits dest!: collect_error getitem_error)

lemma scoped_lookup_error: "scoped_lookup tf g sc tn = Inl e \<Longrightarrow> \<exists>x. e = External x"
  unfolding scoped_lookup_def by (rule external_Inl)

lemma lookup_remapped_tensor_error:
  "lookup_remapped_tensor tf g sc im tn = Inl e \<Longrightarrow> e = KeyError \<or> (\<exists>x. e = External x)"
  unfolding lookup_remapped_tensor_def
  by (auto split: if_splits dest: getitem_error scoped_lookup_error)

lemma resolve_outputs_error:
  "resolve_outputs tf g sc im osig = Inl e \<Longrightarrow> e = KeyError \<or> (\<exists>x. e = External x)"
  unfolding resolve_outputs_def
  by (fastforce split: sum.splits prod.splits dest!: collect_error
        dest: lookup_remapped_tensor_error)

lemma resolve_unbound_inputs_error:
  "resolve_unbound_inputs tf g sc d isig = Inl e \<Longrightarrow> \<exists>x. e = External x"
  unfolding resolve_unbound_inputs_def
  by (fastforce split: sum.splits prod.splits dest!: collect_error dest: scoped_lookup_error)

lemma partition_keys_error:
  "partition_keys ks sk dk = Inl e \<Longrightarrow> \<exists>k \<in> set ks. e = UnrecognizedKey k"
  by (induction ks arbitrary: sk dk) (auto split: option.splits)

lemma set_iteration: "set (iteration rt s) = set s"
  by (simp add: iteration_def)

lemma recompose_sparse_error:
  "recompose_sparse rt tm ks r = Inl e \<Longrightarrow> e = KeyError \<or> (\<exists>x. e = External x)"
  by (induction ks arbitrary: r) (auto split: sum.splits option.splits dest: getitem_error)

lemma recompose_dense_error: "recompose_dense tm ks r = Inl e \<Longrightarrow> e = KeyError"
  by (induction ks arbitrary: r) (auto split: sum.splits dest: getitem_error)

lemma recompose_error:
  "recompose_sparse_tensors rt tm = Inl e
     \<Longrightarrow> e = KeyError \<or> (\<exists>x. e = External x)
         \<or> (\<exists>k \<in> set (keys tm). e = UnrecognizedKey k)"
  unfolding recompose_sparse_tensors_def
  by (auto split: sum.splits prod.splits
        dest: partition_keys_error recompose_sparse_error recompose_dense_error)

text \<open>Only the check of the flat keys against the input signature raises \<open>UnexpectedInput\<close>.\<close>

lemma partially_apply_unexpected:
  assumes "fst (partially_apply_saved_transform loader tf rt dir ins dg) = Inl (UnexpectedInput S)"
  shows "\<exists>mg isig osig. load_transform_saved_model loader dir = Inr (mg, isig, osig)
           \<and> S = set (keys (decompose_sparse_tensors ins)) - set (keys isig) \<and> S \<noteq> {}"
  using assms
  unfolding partially_apply_saved_transform_def Let_def
  by (auto split: sum.splits prod.splits if_splits option.splits
        dest: load_error build_input_map_error resolve_outputs_error
              resolve_unbound_inputs_error recompose_error)

lemma partially_apply_rejects:
  assumes "load_transform_saved_model loader dir = Inr (mg, isig, osig)"
      and "set (keys (decompose_sparse_tensors ins)) - set (keys isig) \<noteq> {}"
  shows "partially_apply_saved_transform loader tf rt dir ins dg =
           (Inl (UnexpectedInput (set (keys (decompose_sparse_tensors ins)) - set (keys isig))), dg)"
  using assms
  unfolding partially_apply_saved_transform_def Let_def
  by simp

subsection \<open>The three loops of the recomposition\<close>

lemma suffix_nonempty: "a \<in> set all_suffixes \<Longrightarrow> a \<noteq> []"
  by (auto simp: all_suffixes_def sparse_suffixes_def dense_suffixes_def)

lemma re_match_suffix_key:
  assumes "re_match alts (n @ dollar # a) = Some g"
      and "a \<in> set all_suffixes" and "set alts \<subseteq> set all_suffixes"
  shows "g = n \<and> a \<in> set alts"
proof -
  from re_match_Some [OF assms(1)] obtain b t where
    b: "b \<in> set alts" "at_end t" "n @ dollar # a = g @ dollar # b @ t" by blast
  have "t = []"
  proof (rule ccontr)
    assume "t \<noteq> []"
    with b(2) have t: "t = [newline]" by (simp add: at_end_def)
    have "last (n @ dollar # a) = last a" using suffix_nonempty [OF assms(2)] by simp
    moreover have "last (g @ dollar # b @ t) = newline" using t by simp
    ultimately have "last a = newline" using b(3) by simp
    then have "newline \<in> set a" using suffix_nonempty [OF assms(2)] last_in_set by metis
    with suffix_chars [OF assms(2)] show False by simp
  qed
  with b(3) have eq: "n @ dollar # a = g @ dollar # b" by simp
  from b(1) assms(3) have "b \<in> set all_suffixes" by blast
  from split_at_last_dollar [OF eq] suffix_chars [OF assms(2)] suffix_chars [OF this] b(1)
  show ?thesis by blast
qed

lemma sparse_key_group:
  assumes "s \<in> set sparse_suffixes"
      and "SPARSE_TENSOR_NAME_RE (n @ dollar # s) \<noteq> None \<or> DENSE_TENSOR_NAME_RE (n @ dollar # s) \<noteq> None"
  shows "SPARSE_TENSOR_NAME_RE (n @ dollar # s) = Some n"
proof (cases "SPARSE_TENSOR_NAME_RE (n @ dollar # s)")
  case (Some g)
  then have "re_match sparse_suffixes (n @ dollar # s) = Some g"
    by (simp add: SPARSE_TENSOR_NAME_RE_def)
  from re_match_suffix_key [OF this sparse_in_all [OF assms(1)]] Some show ?thesis
    by (simp add: all_suffixes_def)
next
  case None
  with assms(2) obtain g where "re_match dense_suffixes (n @ dollar # s) = Some g"
    by (auto simp: DENSE_TENSOR_NAME_RE_def)
  from re_match_suffix_key [OF this sparse_in_all [OF assms(1)]]
  have "s \<in> set dense_suffixes" by (simp add: all_suffixes_def)
  with sparse_not_dense [OF assms(1)] show ?thesis by simp
qed

lemma dense_key_group:
  assumes "SPARSE_TENSOR_NAME_RE (n @ ''$dense_tensor'') \<noteq> None \<or> DENSE_TENSOR_NAME_RE (n @ ''$dense_tensor'') \<noteq> None"
  shows "SPARSE_TENSOR_NAME_RE (n @ ''$dense_tensor'') = None \<and> DENSE_TENSOR_NAME_RE (n @ ''$dense_tensor'') = Some n"
proof -
  have k: "n @ ''$dense_tensor'' = n @ dollar # ''dense_tensor''" by (simp add: dollar_def)
  have d: "''dense_tensor'' \<in> set all_suffixes" by (simp add: all_suffixes_def dense_suffixes_def)
  have 1: "SPARSE_TENSOR_NAME_RE (n @ ''$dense_tensor'') = None"
  proof (rule ccontr)
    assume "\<not> ?thesis"
    then obtain g where "re_match sparse_suffixes (n @ dollar # ''dense_tensor'') = Some g"
      unfolding k by (auto simp: SPARSE_TENSOR_NAME_RE_def)
    from re_match_suffix_key [OF this d] show False
      by (simp add: all_suffixes_def sparse_suffixes_def)
  qed
  with assms obtain g where "re_match dense_suffixes (n @ dollar # ''dense_tensor'') = Some g"
    unfolding k by (auto simp: DENSE_TENSOR_NAME_RE_def)
  from re_match_suffix_key [OF this d] this have "DENSE_TENSOR_NAME_RE (n @ ''$dense_tensor'') = Some n"
    unfolding k by (simp add: all_suffixes_def DENSE_TENSOR_NAME_RE_def)
  with 1 show ?thesis by simp
qed

text \<open>The first loop.\<close>

lemma partition_keys_Inl:
  "partition_keys ks sk dk = Inl e
     \<Longrightarrow> \<exists>k \<in> set ks. e = UnrecognizedKey k
            \<and> SPARSE_TENSOR_NAME_RE k = None \<and> DENSE_TENSOR_NAME_RE k = None"
  by (induction ks arbitrary: sk dk) (auto split: option.splits)

lemma partition_keys_Inr:
  "partition_keys ks sk dk = Inr (sk', dk')
     \<Longrightarrow> (\<forall>k \<in> set ks. SPARSE_TENSOR_NAME_RE k \<noteq> None \<or> DENSE_TENSOR_NAME_RE k \<noteq> None)
       \<and> set sk' = set sk \<union> {g. \<exists>k \<in> set ks. SPARSE_TENSOR_NAME_RE k = Some g}
       \<and> set dk' = set dk \<union> {g. \<exists>k \<in> set ks. SPARSE_TENSOR_NAME_RE k = None
                                        \<and> DENSE_TENSOR_NAME_RE k = Some g}"
proof (induction ks arbitrary: sk dk)
  case Nil
  then show ?case by simp
next
  case (Cons key ks)
  show ?case
  proof (cases "SPARSE_TENSOR_NAME_RE key")
    case (Some g)
    with Cons.prems have "partition_keys ks (set_add g sk) dk = Inr (sk', dk')" by simp
    from Cons.IH [OF this] Some show ?thesis by (auto simp: set_add_def)
  next
    case None
    show ?thesis
    proof (cases "DENSE_TENSOR_NAME_RE key")
      case (Some g)
      with None Cons.prems have "partition_keys ks sk (set_add g dk) = Inr (sk', dk')" by simp
      from Cons.IH [OF this] None Some show ?thesis by (auto simp: set_add_def)
    next
      case None': None
      with None Cons.prems show ?thesis by simp
    qed
  qed
qed

lemma partition_keys_fails_iff:
  "(\<exists>e. partition_keys ks sk dk = Inl e)
     \<longleftrightarrow> (\<exists>k \<in> set ks. SPARSE_TENSOR_NAME_RE k = None \<and> DENSE_TENSOR_NAME_RE k = None)"
proof
  assume "\<exists>e. partition_keys ks sk dk = Inl e"
  then show "\<exists>k \<in> set ks. SPARSE_TENSOR_NAME_RE k = None \<and> DENSE_TENSOR_NAME_RE k = None"
    by (blast dest: partition_keys_Inl)
next
  assume r: "\<exists>k \<in> set ks. SPARSE_TENSOR_NAME_RE k = None \<and> DENSE_TENSOR_NAME_RE k = None"
  show "\<exists>e. partition_keys ks sk dk = Inl e"
  proof (cases "partition_keys ks sk dk")
    case (Inl e)
    then show ?thesis by blast
  next
    case (Inr p)
    obtain sk' dk' where "p = (sk', dk')" by (cases p)
    with Inr partition_keys_Inr [of ks sk dk sk' dk'] r show ?thesis by force
  qed
qed

text \<open>The second and the third loop.\<close>

lemma getitem_Inr: "getitem d k = Inr v \<longleftrightarrow> map_of d k = Some v"
  by (simp add: getitem_def split: option.splits)

lemma getitem_Inl: "(\<exists>e. getitem d k = Inl e) \<longleftrightarrow> k \<notin> set (keys d)"
  by (auto simp: getitem_def keys_def map_of_eq_None_iff split: option.splits
        dest: map_of_SomeD intro: rev_image_eqI)

subsection \<open>What a recomposition returns\<close>

lemma map_of_update_alist:
  "map_of (AList.update k v d) k' = (if k' = k then Some v else map_of d k')"
  by (simp add: update_conv')

lemma recompose_sparse_Inr:
  "recompose_sparse rt tm ks r = Inr r'
     \<Longrightarrow> (\<forall>n \<in> set ks. \<exists>i v d. map_of tm (n @ ''$indices'') = Some i
                 \<and> map_of tm (n @ ''$values'') = Some v
                 \<and> map_of tm (n @ ''$dense_shape'') = Some d
                 \<and> sparse_tensor_raises rt i v d = None
                 \<and> map_of r' n = Some (Sparse i v d))
       \<and> (\<forall>n. n \<notin> set ks \<longrightarrow> map_of r' n = map_of r n)"
proof (induction ks arbitrary: r)
  case Nil
  then show ?case by simp
next
  case (Cons key ks)
  from Cons.prems obtain i v d where
    g: "map_of tm (key @ ''$indices'') = Some i" "map_of tm (key @ ''$values'') = Some v"
       "map_of tm (key @ ''$dense_shape'') = Some d" "sparse_tensor_raises rt i v d = None"
    and rest: "recompose_sparse rt tm ks (AList.update key (Sparse i v d) r) = Inr r'"
    by (auto split: sum.splits option.splits simp: getitem_Inr)
  note ih = Cons.IH [OF rest]
  have "\<exists>i v d. map_of tm (key @ ''$indices'') = Some i
                 \<and> map_of tm (key @ ''$values'') = Some v
                 \<and> map_of tm (key @ ''$dense_shape'') = Some d
                 \<and> sparse_tensor_raises rt i v d = None
                 \<and> map_of r' key = Some (Sparse i v d)"
  proof (cases "key \<in> set ks")
    case True
    with ih show ?thesis by blast
  next
    case False
    with ih have "map_of r' key = map_of (AList.update key (Sparse i v d) r) key" by blast
    with g show ?thesis by (simp add: map_of_update_alist)
  qed
  moreover have "map_of r' n = map_of r n" if "n \<notin> set (key # ks)" for n
    using ih that by (simp add: map_of_update_alist)
  ultimately show ?case using ih by auto
qed

text \<open>
  How the second loop fails: on a part that is missing, or on three parts that the
  constructor refuses.
\<close>

lemma recompose_sparse_Inl:
  "recompose_sparse rt tm ks r = Inl e
     \<Longrightarrow> (e = KeyError \<and> (\<exists>m \<in> set ks. map_of tm (m @ ''$indices'') = None
                          \<or> map_of tm (m @ ''$values'') = None
                          \<or> map_of tm (m @ ''$dense_shape'') = None))
       \<or> (\<exists>m \<in> set ks. \<exists>i v d x. map_of tm (m @ ''$indices'') = Some i
                 \<and> map_of tm (m @ ''$values'') = Some v
                 \<and> map_of tm (m @ ''$dense_shape'') = Some d
                 \<and> sparse_tensor_raises rt i v d = Some x \<and> e = External x)"
proof (induction ks arbitrary: r)
  case Nil
  then show ?case by simp
next
  case (Cons key ks)
  show ?case
  proof (cases "map_of tm (key @ ''$indices'') = None \<or> map_of tm (key @ ''$values'') = None
                 \<or> map_of tm (key @ ''$dense_shape'') = None")
    case True
    with Cons.prems have "e = KeyError"
      by (auto simp: getitem_def split: option.splits sum.splits)
    with True show ?thesis by auto
  next
    case False
    then obtain i v d where
      g: "map_of tm (key @ ''$indices'') = Some i" "map_of tm (key @ ''$values'') = Some v"
         "map_of tm (key @ ''$dense_shape'') = Some d" by auto
    show ?thesis
    proof (cases "sparse_tensor_raises rt i v d")
      case (Some x)
      with g Cons.prems have "e = External x" by (simp add: getitem_def)
      with g Some show ?thesis by auto
    next
      case None
      with g Cons.prems have "recompose_sparse rt tm ks (AList.update key (Sparse i v d) r) = Inl e"
        by (simp add: getitem_def)
      from Cons.IH [OF this] show ?thesis
        by (elim disjE conjE bexE exE) (blast intro: list.set_intros(2))+
    qed
  qed
qed

lemma recompose_dense_Inr:
  "recompose_dense tm ks r = Inr r'
     \<Longrightarrow> (\<forall>n \<in> set ks. \<exists>t. map_of tm (n @ ''$dense_tensor'') = Some t
                 \<and> map_of r' n = Some (Dense t))
       \<and> (\<forall>n. n \<notin> set ks \<longrightarrow> map_of r' n = map_of r n)"
proof (induction ks arbitrary: r)
  case Nil
  then show ?case by simp
next
  case (Cons key ks)
  from Cons.prems obtain t where
    g: "map_of tm (key @ ''$dense_tensor'') = Some t"
    and rest: "recompose_dense tm ks (AList.update key (Dense t) r) = Inr r'"
    by (auto split: sum.splits simp: getitem_Inr)
  note ih = Cons.IH [OF rest]
  have "\<exists>t. map_of tm (key @ ''$dense_tensor'') = Some t \<and> map_of r' key = Some (Dense t)"
  proof (cases "key \<in> set ks")
    case True
    with ih show ?thesis by blast
  next
    case False
    with ih have "map_of r' key = map_of (AList.update key (Dense t) r) key" by blast
    with g show ?thesis by (simp add: map_of_update_alist)
  qed
  moreover have "map_of r' n = map_of r n" if "n \<notin> set (key # ks)" for n
    using ih that by (simp add: map_of_update_alist)
  ultimately show ?case using ih by auto
qed

lemma recompose_sparse_total:
  assumes "\<And>n. n \<in> set ks \<Longrightarrow> \<exists>i v d. map_of tm (n @ ''$indices'') = Some i
             \<and> map_of tm (n @ ''$values'') = Some v \<and> map_of tm (n @ ''$dense_shape'') = Some d
             \<and> sparse_tensor_raises rt i v d = None"
  shows "\<exists>r'. recompose_sparse rt tm ks r = Inr r'"
proof (cases "recompose_sparse rt tm ks r")
  case (Inr r')
  then show ?thesis by blast
next
  case (Inl e)
  from recompose_sparse_Inl [OF Inl] assms show ?thesis by fastforce
qed

lemma recompose_dense_total:
  assumes "\<And>n. n \<in> set ks \<Longrightarrow> n @ ''$dense_tensor'' \<in> set (keys tm)"
  shows "\<exists>r'. recompose_dense tm ks r = Inr r'"
proof (cases "recompose_dense tm ks r")
  case (Inr r')
  then show ?thesis by blast
next
  case (Inl e)
  have "recompose_dense tm ks r = Inl e \<Longrightarrow> \<exists>n \<in> set ks. n @ ''$dense_tensor'' \<notin> set (keys tm)"
  proof (induction ks arbitrary: r)
    case Nil
    then show ?case by simp
  next
    case (Cons key ks)
    show ?case
    proof (cases "key @ ''$dense_tensor'' \<in> set (keys tm)")
      case False
      then show ?thesis by auto
    next
      case True
      then obtain t where "getitem tm (key @ ''$dense_tensor'') = Inr t"
        using getitem_Inl [of tm] by (metis sum.exhaust)
      with Cons.prems have "recompose_dense tm ks (AList.update key (Dense t) r) = Inl e"
        by simp
      from Cons.IH [OF this] show ?thesis by auto
    qed
  qed
  from this [OF Inl] assms show ?thesis by blast
qed

text \<open>What a successful recomposition returns.\<close>

lemma recompose_Inr:
  assumes "recompose_sparse_tensors rt tm = Inr r"
  shows "\<exists>sk dk.
      partition_keys (keys tm) [] [] = Inr (sk, dk)
    \<and> (\<forall>n \<in> set dk. \<exists>t. map_of tm (n @ ''$dense_tensor'') = Some t \<and> map_of r n = Some (Dense t))
    \<and> (\<forall>n \<in> set sk. n \<notin> set dk \<longrightarrow>
          (\<exists>i v d. map_of tm (n @ ''$indices'') = Some i \<and> map_of tm (n @ ''$values'') = Some v
             \<and> map_of tm (n @ ''$dense_shape'') = Some d \<and> map_of r n = Some (Sparse i v d)))
    \<and> (\<forall>n. n \<notin> set sk \<and> n \<notin> set dk \<longrightarrow> map_of r n = None)"
proof -
  from assms obtain sk dk rs where
    p: "partition_keys (keys tm) [] [] = Inr (sk, dk)" and
    s: "recompose_sparse rt tm (iteration rt sk) [] = Inr rs" and
    d: "recompose_dense tm (iteration rt dk) rs = Inr r"
    by (auto simp: recompose_sparse_tensors_def split: sum.splits prod.splits)
  note S = recompose_sparse_Inr [OF s, unfolded set_iteration]
    and D = recompose_dense_Inr [OF d, unfolded set_iteration]
  have 1: "\<forall>n \<in> set dk. \<exists>t. map_of tm (n @ ''$dense_tensor'') = Some t \<and> map_of r n = Some (Dense t)"
    using D by blast
  have 2: "\<forall>n \<in> set sk. n \<notin> set dk \<longrightarrow>
          (\<exists>i v d. map_of tm (n @ ''$indices'') = Some i \<and> map_of tm (n @ ''$values'') = Some v
             \<and> map_of tm (n @ ''$dense_shape'') = Some d \<and> map_of r n = Some (Sparse i v d))"
  proof (intro ballI impI)
    fix n assume "n \<in> set sk" "n \<notin> set dk"
    with D have "map_of r n = map_of rs n" by blast
    with S \<open>n \<in> set sk\<close> show "\<exists>i v d. map_of tm (n @ ''$indices'') = Some i \<and> map_of tm (n @ ''$values'') = Some v
             \<and> map_of tm (n @ ''$dense_shape'') = Some d \<and> map_of r n = Some (Sparse i v d)"
      by (metis (no_types, lifting))
  qed
  have 3: "\<forall>n. n \<notin> set sk \<and> n \<notin> set dk \<longrightarrow> map_of r n = None"
    using S D by simp
  from p 1 2 3 show ?thesis by blast
qed

lemma flat_lookup:
  assumes "distinct (keys x)" and "p \<in> set x" and "(k, t) \<in> set (decompose_step p [])"
  shows "map_of (decompose_sparse_tensors x) k = Some t"
proof -
  have "(k, t) \<in> set (concat (map (\<lambda>p. decompose_step p []) x))"
    using assms(2,3) by auto
  moreover have "distinct (map fst (concat (map (\<lambda>p. decompose_step p []) x)))"
    using distinct_flat_keys [OF assms(1)] by (simp add: keys_def)
  ultimately show ?thesis
    unfolding decompose_concat [OF assms(1)] by (rule map_of_is_SomeI [rotated])
qed

lemma sparse_key_exact:
  assumes "newline \<notin> set n" and "a \<in> set sparse_suffixes"
  shows "SPARSE_TENSOR_NAME_RE (n @ dollar # a) = Some n"
  unfolding SPARSE_TENSOR_NAME_RE_def
  by (rule re_match_exact [OF assms(2,1)]) (auto dest: sparse_in_all suffix_chars)

lemma dense_key_exact:
  assumes "newline \<notin> set n"
  shows "SPARSE_TENSOR_NAME_RE (n @ ''$dense_tensor'') = None
       \<and> DENSE_TENSOR_NAME_RE (n @ ''$dense_tensor'') = Some n"
proof -
  have "re_match dense_suffixes (n @ dollar # ''dense_tensor'') = Some n"
    by (rule re_match_exact [OF _ assms]) (auto simp: dense_suffixes_def dollar_def newline_def)
  then have "DENSE_TENSOR_NAME_RE (n @ ''$dense_tensor'') \<noteq> None"
    by (simp add: DENSE_TENSOR_NAME_RE_def dollar_def)
  then show ?thesis using dense_key_group [of n] by blast
qed

text \<open>
  For a dict (one pair per name) whose names hold no newline and whose sparse values the
  constructor accepts, recomposing the decomposition succeeds and gives the same dict
  back, also when names hold \<open>$\<close>, in whatever order the sets are visited.
\<close>

lemma roundtrip_without_newline:
  assumes dist: "distinct (keys x)" and nl: "\<forall>n \<in> set (keys x). newline \<notin> set n"
      and acc: "\<And>n i vs d. (n, Sparse i vs d) \<in> set x \<Longrightarrow> sparse_tensor_raises rt i vs d = None"
  shows "\<exists>r. recompose_sparse_tensors rt (decompose_sparse_tensors x) = Inr r \<and> map_of r = map_of x"
proof -
  let ?F = "decompose_sparse_tensors x"
  have K: "set (keys ?F) = (\<Union>(n, v) \<in> set x.
                case v of
                  Dense t \<Rightarrow> {n @ ''$dense_tensor''}
                | Sparse i vs d \<Rightarrow> {n @ ''$indices'', n @ ''$values'', n @ ''$dense_shape''})"
    unfolding decompose_concat [OF dist] by (rule set_flat_keys)
  have nl': "newline \<notin> set n" if "(n, v) \<in> set x" for n v
    using nl that by (force simp: keys_def)
  have sp: "SPARSE_TENSOR_NAME_RE (n @ ''$indices'') = Some n"
           "SPARSE_TENSOR_NAME_RE (n @ ''$values'') = Some n"
           "SPARSE_TENSOR_NAME_RE (n @ ''$dense_shape'') = Some n" if "(n, v) \<in> set x" for n v
    using sparse_key_exact [OF nl' [OF that], of "''indices''"]
          sparse_key_exact [OF nl' [OF that], of "''values''"]
          sparse_key_exact [OF nl' [OF that], of "''dense_shape''"]
    by (simp_all add: sparse_suffixes_def dollar_def)
  have de: "SPARSE_TENSOR_NAME_RE (n @ ''$dense_tensor'') = None"
           "DENSE_TENSOR_NAME_RE (n @ ''$dense_tensor'') = Some n" if "(n, v) \<in> set x" for n v
    using dense_key_exact [OF nl' [OF that]] by simp_all
  have keycases: "\<exists>n v. (n, v) \<in> set x \<and>
       ((\<exists>t. v = Dense t \<and> k = n @ ''$dense_tensor'')
        \<or> (\<exists>i vs d. v = Sparse i vs d \<and> k \<in> {n @ ''$indices'', n @ ''$values'', n @ ''$dense_shape''}))"
    if "k \<in> set (keys ?F)" for k
  proof -
    from that K obtain n v where nv: "(n, v) \<in> set x"
      "k \<in> (case v of Dense t \<Rightarrow> {n @ ''$dense_tensor''}
             | Sparse i vs d \<Rightarrow> {n @ ''$indices'', n @ ''$values'', n @ ''$dense_shape''})"
      by auto
    then show ?thesis by (cases v) (auto intro!: exI [of _ n])
  qed
  have rec: "SPARSE_TENSOR_NAME_RE k \<noteq> None \<or> DENSE_TENSOR_NAME_RE k \<noteq> None"
    if "k \<in> set (keys ?F)" for k
    using keycases [OF that] sp de by fastforce
  then have "\<not> (\<exists>e. partition_keys (keys ?F) [] [] = Inl e)"
    unfolding partition_keys_fails_iff by blast
  then obtain sk dk where p: "partition_keys (keys ?F) [] [] = Inr (sk, dk)"
    by (cases "partition_keys (keys ?F) [] []") auto
  note P = partition_keys_Inr [OF p]
  have sk: "set sk = {n. \<exists>i vs d. (n, Sparse i vs d) \<in> set x}"
  proof (intro set_eqI iffI)
    fix g assume "g \<in> set sk"
    with P obtain k where k: "k \<in> set (keys ?F)" "SPARSE_TENSOR_NAME_RE k = Some g" by auto
    from keycases [OF k(1)] k(2) sp de show "g \<in> {n. \<exists>i vs d. (n, Sparse i vs d) \<in> set x}"
      by fastforce
  next
    fix g assume "g \<in> {n. \<exists>i vs d. (n, Sparse i vs d) \<in> set x}"
    then obtain i vs d where m: "(g, Sparse i vs d) \<in> set x" by blast
    then have "g @ ''$indices'' \<in> set (keys ?F)" unfolding K by force
    with sp(1) [OF m] P show "g \<in> set sk" by auto
  qed
  have dk: "set dk = {n. \<exists>t. (n, Dense t) \<in> set x}"
  proof (intro set_eqI iffI)
    fix g assume "g \<in> set dk"
    with P obtain k where k: "k \<in> set (keys ?F)" "SPARSE_TENSOR_NAME_RE k = None"
      "DENSE_TENSOR_NAME_RE k = Some g" by auto
    from keycases [OF k(1)] k(2,3) sp de show "g \<in> {n. \<exists>t. (n, Dense t) \<in> set x}"
      by fastforce
  next
    fix g assume "g \<in> {n. \<exists>t. (n, Dense t) \<in> set x}"
    then obtain t where m: "(g, Dense t) \<in> set x" by blast
    then have "g @ ''$dense_tensor'' \<in> set (keys ?F)" unfolding K by force
    with de [OF m] P show "g \<in> set dk" by auto
  qed
  have Ms: "map_of ?F (n @ ''$indices'') = Some i \<and> map_of ?F (n @ ''$values'') = Some vs
            \<and> map_of ?F (n @ ''$dense_shape'') = Some d" if "(n, Sparse i vs d) \<in> set x" for n i vs d
    using flat_lookup [OF dist that, of "n @ ''$indices''" i]
          flat_lookup [OF dist that, of "n @ ''$values''" vs]
          flat_lookup [OF dist that, of "n @ ''$dense_shape''" d]
    by simp
  have Md: "map_of ?F (n @ ''$dense_tensor'') = Some t" if "(n, Dense t) \<in> set x" for n t
    using flat_lookup [OF dist that, of "n @ ''$dense_tensor''" t] by simp
  have "\<exists>rs. recompose_sparse rt ?F (iteration rt sk) [] = Inr rs"
  proof (rule recompose_sparse_total)
    fix n assume "n \<in> set (iteration rt sk)"
    with sk obtain i vs d where m: "(n, Sparse i vs d) \<in> set x" by (auto simp: set_iteration)
    from Ms [OF m] acc [OF m]
    show "\<exists>i v d. map_of ?F (n @ ''$indices'') = Some i
             \<and> map_of ?F (n @ ''$values'') = Some v \<and> map_of ?F (n @ ''$dense_shape'') = Some d
             \<and> sparse_tensor_raises rt i v d = None"
      by blast
  qed
  then obtain rs where rs: "recompose_sparse rt ?F (iteration rt sk) [] = Inr rs" by blast
  have "\<exists>r. recompose_dense ?F (iteration rt dk) rs = Inr r"
  proof (rule recompose_dense_total)
    fix n assume "n \<in> set (iteration rt dk)"
    then have "n \<in> set dk" by (simp add: set_iteration)
    with dk obtain t where "(n, Dense t) \<in> set x" by blast
    then show "n @ ''$dense_tensor'' \<in> set (keys ?F)" unfolding K by force
  qed
  then obtain r where r: "recompose_dense ?F (iteration rt dk) rs = Inr r" by blast
  from p rs r have ok: "recompose_sparse_tensors rt ?F = Inr r"
    by (simp add: recompose_sparse_tensors_def)
  from recompose_Inr [OF ok] p have
    R1: "\<forall>n \<in> set dk. \<exists>t. map_of ?F (n @ ''$dense_tensor'') = Some t \<and> map_of r n = Some (Dense t)" and
    R2: "\<forall>n \<in> set sk. n \<notin> set dk \<longrightarrow>
          (\<exists>i v d. map_of ?F (n @ ''$indices'') = Some i \<and> map_of ?F (n @ ''$values'') = Some v
             \<and> map_of ?F (n @ ''$dense_shape'') = Some d \<and> map_of r n = Some (Sparse i v d))" and
    R3: "\<forall>n. n \<notin> set sk \<and> n \<notin> set dk \<longrightarrow> map_of r n = None"
    by simp_all
  have dx: "distinct (map fst x)" using dist by (simp add: keys_def)
  have "map_of r n = map_of x n" for n
  proof (cases "map_of x n")
    case None
    then have "n \<notin> fst ` set x" by (simp add: map_of_eq_None_iff)
    then have "n \<notin> set sk" "n \<notin> set dk" unfolding sk dk by force+
    with R3 None show ?thesis by simp
  next
    case (Some v)
    then have m: "(n, v) \<in> set x" by (rule map_of_SomeD)
    show ?thesis
    proof (cases v)
      case (Dense t)
      with m have "n \<in> set dk" unfolding dk by blast
      with R1 Md [OF m [unfolded Dense]] Some Dense show ?thesis by auto
    next
      case (Sparse i vs d)
      with m have "n \<in> set sk" unfolding sk by blast
      moreover have "n \<notin> set dk"
      proof
        assume "n \<in> set dk"
        then obtain t where "(n, Dense t) \<in> set x" unfolding dk by blast
        then have "map_of x n = Some (Dense t)" using dx by (rule map_of_is_SomeI [rotated])
        with Some Sparse show False by simp
      qed
      ultimately show ?thesis using R2 Ms [OF m [unfolded Sparse]] Some Sparse by auto
    qed
  qed
  then have "map_of r = map_of x" by (rule ext)
  with ok show ?thesis by blast
qed

lemma recompose_dense_entry:
  assumes "recompose_sparse_tensors rt tm = Inr r" and "map_of tm (n @ ''$dense_tensor'') = Some t"
  shows "map_of r n = Some (Dense t)"
proof -
  from recompose_Inr [OF assms(1)] obtain sk dk where
    p: "partition_keys (keys tm) [] [] = Inr (sk, dk)" and
    R1: "\<forall>n \<in> set dk. \<exists>t. map_of tm (n @ ''$dense_tensor'') = Some t \<and> map_of r n = Some (Dense t)"
    by blast
  note P = partition_keys_Inr [OF p]
  from assms(2) have k: "n @ ''$dense_tensor'' \<in> set (keys tm)"
    by (auto simp: keys_def dest: map_of_SomeD intro: rev_image_eqI)
  with P dense_key_group [of n] have "n \<in> set dk" by blast
  with R1 assms(2) show ?thesis by auto
qed

lemma recompose_sparse_entry:
  assumes "recompose_sparse_tensors rt tm = Inr r"
      and "s \<in> set sparse_suffixes" and "n @ dollar # s \<in> set (keys tm)"
      and "n @ ''$dense_tensor'' \<notin> set (keys tm)"
  shows "\<exists>i v d. map_of tm (n @ ''$indices'') = Some i \<and> map_of tm (n @ ''$values'') = Some v
             \<and> map_of tm (n @ ''$dense_shape'') = Some d \<and> map_of r n = Some (Sparse i v d)"
proof -
  from recompose_Inr [OF assms(1)] obtain sk dk where
    p: "partition_keys (keys tm) [] [] = Inr (sk, dk)" and
    R1: "\<forall>n \<in> set dk. \<exists>t. map_of tm (n @ ''$dense_tensor'') = Some t \<and> map_of r n = Some (Dense t)" and
    R2: "\<forall>n \<in> set sk. n \<notin> set dk \<longrightarrow>
          (\<exists>i v d. map_of tm (n @ ''$indices'') = Some i \<and> map_of tm (n @ ''$values'') = Some v
             \<and> map_of tm (n @ ''$dense_shape'') = Some d \<and> map_of r n = Some (Sparse i v d))"
    by blast
  note P = partition_keys_Inr [OF p]
  from P assms(3) sparse_key_group [OF assms(2), of n]
  have "SPARSE_TENSOR_NAME_RE (n @ dollar # s) = Some n" by blast
  with P assms(3) have 1: "n \<in> set sk" by blast
  have 2: "n \<notin> set dk"
  proof
    assume "n \<in> set dk"
    with R1 obtain t where "map_of tm (n @ ''$dense_tensor'') = Some t" by blast
    then have "n @ ''$dense_tensor'' \<in> set (keys tm)"
      by (auto simp: keys_def dest: map_of_SomeD intro: rev_image_eqI)
    with assms(4) show False by simp
  qed
  from R2 1 2 show ?thesis by blast
qed

lemma recompose_nonempty:
  assumes "recompose_sparse_tensors rt tm = Inr r"
  shows "r = [] \<longleftrightarrow> tm = []"
proof
  assume "tm = []"
  with assms show "r = []" by (simp add: recompose_sparse_tensors_def keys_def iteration_def)
next
  assume r: "r = []"
  show "tm = []"
  proof (rule ccontr)
    assume "tm \<noteq> []"
    then obtain k where k: "k \<in> set (keys tm)" by (cases tm) (auto simp: keys_def)
    from recompose_Inr [OF assms] obtain sk dk where
      p: "partition_keys (keys tm) [] [] = Inr (sk, dk)" and
      R1: "\<forall>n \<in> set dk. \<exists>t. map_of tm (n @ ''$dense_tensor'') = Some t \<and> map_of r n = Some (Dense t)" and
      R2: "\<forall>n \<in> set sk. n \<notin> set dk \<longrightarrow>
          (\<exists>i v d. map_of tm (n @ ''$indices'') = Some i \<and> map_of tm (n @ ''$values'') = Some v
             \<and> map_of tm (n @ ''$dense_shape'') = Some d \<and> map_of r n = Some (Sparse i v d))"
      by blast
    note P = partition_keys_Inr [OF p]
    have "\<exists>n. n \<in> set sk \<union> set dk"
    proof (cases "SPARSE_TENSOR_NAME_RE k")
      case (Some g)
      with P k have "g \<in> set sk" by auto
      then show ?thesis by blast
    next
      case None
      with P k obtain g where "DENSE_TENSOR_NAME_RE k = Some g" by fastforce
      with None P k have "g \<in> set dk" by auto
      then show ?thesis by blast
    qed
    then obtain n where "n \<in> set sk \<union> set dk" by blast
    with R1 R2 have "\<exists>v. map_of r n = Some v" by blast
    with r show False by simp
  qed
qed

text \<open>
  For a flat dict whose keys hold no newline, the recomposition fails with
  \<open>UnrecognizedKey\<close> exactly when some key is not \<open>name$suffix\<close> for one of the four
  suffixes.
\<close>

lemma unrecognized_iff_without_newline:
  assumes "\<forall>k \<in> set (keys tm). newline \<notin> set k"
  shows "(\<exists>k. recompose_sparse_tensors rt tm = Inl (UnrecognizedKey k))
     \<longleftrightarrow> (\<exists>k \<in> set (keys tm). \<not> (\<exists>n a. a \<in> set all_suffixes \<and> k = n @ dollar # a))"
proof -
  have m: "(SPARSE_TENSOR_NAME_RE k = None \<and> DENSE_TENSOR_NAME_RE k = None)
         \<longleftrightarrow> \<not> (\<exists>n a. a \<in> set all_suffixes \<and> k = n @ dollar # a)" if "newline \<notin> set k" for k
  proof
    assume none: "SPARSE_TENSOR_NAME_RE k = None \<and> DENSE_TENSOR_NAME_RE k = None"
    show "\<not> (\<exists>n a. a \<in> set all_suffixes \<and> k = n @ dollar # a)"
    proof
      assume "\<exists>n a. a \<in> set all_suffixes \<and> k = n @ dollar # a"
      then obtain n a where a: "a \<in> set all_suffixes" "k = n @ dollar # a" by blast
      with that have n: "newline \<notin> set n" by simp
      from a(1) consider "a \<in> set sparse_suffixes" | "a = ''dense_tensor''"
        by (auto simp: all_suffixes_def dense_suffixes_def)
      then show False
      proof cases
        case 1
        from sparse_key_exact [OF n 1] a(2) none show False by simp
      next
        case 2
        with dense_key_exact [OF n] a(2) none show False by (simp add: dollar_def)
      qed
    qed
  next
    assume no: "\<not> (\<exists>n a. a \<in> set all_suffixes \<and> k = n @ dollar # a)"
    have "re_match alts k = None" if "set alts \<subseteq> set all_suffixes" for alts
    proof (rule ccontr)
      assume "re_match alts k \<noteq> None"
      then obtain g where "re_match alts k = Some g" by blast
      from re_match_Some [OF this] obtain a t where
        a: "a \<in> set alts" "at_end t" "k = g @ dollar # a @ t" by blast
      from a(3) \<open>newline \<notin> set k\<close> have "newline \<notin> set t" by simp
      with a(2) have "t = []" by (auto simp: at_end_def)
      with a that no show False by auto
    qed
    from this [of sparse_suffixes] this [of dense_suffixes]
    show "SPARSE_TENSOR_NAME_RE k = None \<and> DENSE_TENSOR_NAME_RE k = None"
      by (simp add: SPARSE_TENSOR_NAME_RE_def DENSE_TENSOR_NAME_RE_def all_suffixes_def)
  qed
  have "(\<exists>k. recompose_sparse_tensors rt tm = Inl (UnrecognizedKey k))
       \<longleftrightarrow> (\<exists>e. partition_keys (keys tm) [] [] = Inl e)"
  proof
    assume "\<exists>k. recompose_sparse_tensors rt tm = Inl (UnrecognizedKey k)"
    then obtain k where k: "recompose_sparse_tensors rt tm = Inl (UnrecognizedKey k)" by blast
    show "\<exists>e. partition_keys (keys tm) [] [] = Inl e"
    proof (cases "partition_keys (keys tm) [] []")
      case (Inl e)
      then show ?thesis by blast
    next
      case (Inr q)
      with k show ?thesis
        by (auto simp: recompose_sparse_tensors_def split: sum.splits prod.splits
              dest: recompose_sparse_error recompose_dense_error)
    qed
  next
    assume "\<exists>e. partition_keys (keys tm) [] [] = Inl e"
    then obtain e where e: "partition_keys (keys tm) [] [] = Inl e" by blast
    from partition_keys_Inl [OF e] obtain k where "e = UnrecognizedKey k" by blast
    with e show "\<exists>k. recompose_sparse_tensors rt tm = Inl (UnrecognizedKey k)"
      by (auto simp: recompose_sparse_tensors_def)
  qed
  also have "\<dots> \<longleftrightarrow> (\<exists>k \<in> set (keys tm). SPARSE_TENSOR_NAME_RE k = None \<and> DENSE_TENSOR_NAME_RE k = None)"
    by (rule partition_keys_fails_iff)
  also have "\<dots> \<longleftrightarrow> (\<exists>k \<in> set (keys tm). \<not> (\<exists>n a. a \<in> set all_suffixes \<and> k = n @ dollar # a))"
    using assms m by blast
  finally show ?thesis .
qed

subsection \<open>A sparse name without its three parts\<close>

text \<open>
  Claim C10, as amended. Take a flat dict in which every key is recognized by one of the
  two expressions. If it holds \<open>name$s\<close> for one of the three sparse suffixes and lacks
  \<open>name$s'\<close> for another, \<^verbatim>\<open>_recompose_sparse_tensors\<close> does not return and does not fail
  with \<open>UnrecognizedKey\<close>: it fails with the \<^verbatim>\<open>KeyError\<close> of the lookup
  \<^verbatim>\<open>tensor_map[key + ...]\<close>, or with what \<^verbatim>\<open>tf.SparseTensor\<close> raises on the three parts
  of another name, one that the loop visits before. When the constructor accepts every
  three parts that the dict holds under one name, it is the \<^verbatim>\<open>KeyError\<close>, in whatever
  order the names are visited.
\<close>

theorem missing_sibling_fails:
  assumes "\<forall>k \<in> set (keys tm). SPARSE_TENSOR_NAME_RE k \<noteq> None \<or> DENSE_TENSOR_NAME_RE k \<noteq> None"
      and "s \<in> set sparse_suffixes" and "n @ dollar # s \<in> set (keys tm)"
      and "s' \<in> set sparse_suffixes" and "n @ dollar # s' \<notin> set (keys tm)"
  shows "(recompose_sparse_tensors rt tm = Inl KeyError
          \<or> (\<exists>m i v d x. m \<noteq> n \<and> map_of tm (m @ ''$indices'') = Some i
                \<and> map_of tm (m @ ''$values'') = Some v \<and> map_of tm (m @ ''$dense_shape'') = Some d
                \<and> sparse_tensor_raises rt i v d = Some x
                \<and> recompose_sparse_tensors rt tm = Inl (External x)))
       \<and> ((\<forall>m i v d. map_of tm (m @ ''$indices'') = Some i
                \<and> map_of tm (m @ ''$values'') = Some v \<and> map_of tm (m @ ''$dense_shape'') = Some d
                \<longrightarrow> sparse_tensor_raises rt i v d = None)
            \<longrightarrow> recompose_sparse_tensors rt tm = Inl KeyError)"
proof -
  from assms(1) have "\<not> (\<exists>e. partition_keys (keys tm) [] [] = Inl e)"
    unfolding partition_keys_fails_iff by simp
  then obtain sk dk where p: "partition_keys (keys tm) [] [] = Inr (sk, dk)"
    by (cases "partition_keys (keys tm) [] []") auto
  from assms(1,3) sparse_key_group [OF assms(2), of n]
  have "SPARSE_TENSOR_NAME_RE (n @ dollar # s) = Some n" by blast
  with partition_keys_Inr [OF p] assms(3) have "n \<in> set sk" by blast
  then have n: "n \<in> set (iteration rt sk)" by (simp add: set_iteration)
  from assms(5) have "map_of tm (n @ dollar # s') = None"
    by (simp add: keys_def map_of_eq_None_iff)
  with assms(4) have missing: "map_of tm (n @ ''$indices'') = None
      \<or> map_of tm (n @ ''$values'') = None \<or> map_of tm (n @ ''$dense_shape'') = None"
    by (auto simp: sparse_suffixes_def dollar_def)
  obtain e where e: "recompose_sparse rt tm (iteration rt sk) [] = Inl e"
  proof (cases "recompose_sparse rt tm (iteration rt sk) []")
    case (Inl e)
    then show ?thesis by (rule that)
  next
    case (Inr rs)
    from recompose_sparse_Inr [OF Inr] n missing show ?thesis by fastforce
  qed
  with p have r: "recompose_sparse_tensors rt tm = Inl e"
    by (simp add: recompose_sparse_tensors_def)
  from recompose_sparse_Inl [OF e] consider
      (key) "e = KeyError"
    | (ctor) m i v d x where "map_of tm (m @ ''$indices'') = Some i"
        "map_of tm (m @ ''$values'') = Some v" "map_of tm (m @ ''$dense_shape'') = Some d"
        "sparse_tensor_raises rt i v d = Some x" "e = External x"
    by blast
  then show ?thesis
  proof cases
    case key
    with r show ?thesis by simp
  next
    case ctor
    from ctor(1-3) missing have "m \<noteq> n" by auto
    with ctor r have A: "\<exists>m i v d x. m \<noteq> n \<and> map_of tm (m @ ''$indices'') = Some i
                \<and> map_of tm (m @ ''$values'') = Some v \<and> map_of tm (m @ ''$dense_shape'') = Some d
                \<and> sparse_tensor_raises rt i v d = Some x
                \<and> recompose_sparse_tensors rt tm = Inl (External x)"
      by blast
    have B: "\<not> (\<forall>m i v d. map_of tm (m @ ''$indices'') = Some i
                \<and> map_of tm (m @ ''$values'') = Some v \<and> map_of tm (m @ ''$dense_shape'') = Some d
                \<longrightarrow> sparse_tensor_raises rt i v d = None)"
      using ctor(1-4) by (metis option.distinct(1))
    from A B show ?thesis by blast
  qed
qed

theorem missing_sibling_fails_witness:
  "recompose_sparse_tensors demo_runtime
      [(''a$indices'', ''i''), (''a$dense_shape'', ''s''), (''b$dense_tensor'', ''t'')]
     = Inl KeyError"
proof -
  let ?tm = "[(''a$indices'', ''i''), (''a$dense_shape'', ''s''), (''b$dense_tensor'', ''t'')]"
  have 1: "\<forall>k \<in> set (keys ?tm). SPARSE_TENSOR_NAME_RE k \<noteq> None \<or> DENSE_TENSOR_NAME_RE k \<noteq> None"
    by code_simp
  have 2: "''indices'' \<in> set sparse_suffixes" "''values'' \<in> set sparse_suffixes"
    by (simp_all add: sparse_suffixes_def)
  have 3: "''a'' @ dollar # ''indices'' \<in> set (keys ?tm)" by (simp add: keys_def dollar_def)
  have 4: "''a'' @ dollar # ''values'' \<notin> set (keys ?tm)" by (simp add: keys_def dollar_def)
  have 5: "sparse_tensor_raises demo_runtime i v d = None"
    if "map_of ?tm (m @ ''$indices'') = Some i" for m i v d
  proof -
    from that have "(m @ ''$indices'', i) \<in> set ?tm" by (rule map_of_SomeD)
    then have "i \<noteq> ''float32''" by auto
    then show ?thesis by (simp add: demo_runtime_def)
  qed
  from missing_sibling_fails [OF 1 2(1) 3 2(2) 4, of demo_runtime] 5 show ?thesis by blast
qed

text \<open>
  The claim as stated, with the \<^verbatim>\<open>KeyError\<close> in every case, fails where the dict also
  holds three parts that the constructor refuses, under a name visited before the one
  that lacks a part: the constructor's error comes first. Visited the other way round, the
  same dict gives the \<^verbatim>\<open>KeyError\<close>.
\<close>

theorem missing_sibling_KeyError_counterexample:
  "recompose_sparse_tensors demo_runtime
      [(''a$indices'', ''float32''), (''a$values'', ''v''), (''a$dense_shape'', ''s''),
       (''b$indices'', ''i'')]
     = Inl (External ''indices: expected int64'')
   \<and> recompose_sparse_tensors demo_runtime
      [(''a$indices'', ''float32''), (''a$values'', ''v''), (''a$dense_shape'', ''s''),
       (''b$indices'', ''i'')]
     \<noteq> Inl KeyError
   \<and> recompose_sparse_tensors (demo_runtime\<lparr>visit_rank := (\<lambda>n. if n = ''b'' then 0 else 1)\<rparr>)
      [(''a$indices'', ''float32''), (''a$values'', ''v''), (''a$dense_shape'', ''s''),
       (''b$indices'', ''i'')]
     = Inl KeyError"
proof -
  have 1: "recompose_sparse_tensors demo_runtime
      [(''a$indices'', ''float32''), (''a$values'', ''v''), (''a$dense_shape'', ''s''),
       (''b$indices'', ''i'')]
     = Inl (External ''indices: expected int64'')"
    by code_simp
  have 2: "recompose_sparse_tensors (demo_runtime\<lparr>visit_rank := (\<lambda>n. if n = ''b'' then 0 else 1)\<rparr>)
      [(''a$indices'', ''float32''), (''a$values'', ''v''), (''a$dense_shape'', ''s''),
       (''b$indices'', ''i'')]
     = Inl KeyError"
    by code_simp
  show ?thesis unfolding 1 2 by simp
qed

subsection \<open>Names with a newline\<close>

text \<open>
  Claim C1. The claim has \<^verbatim>\<open>_recompose_sparse_tensors(_decompose_sparse_tensors(x)) == x\<close>
  for every \<open>x\<close>, and the docstrings say as much ("Undoes the function
  \<^verbatim>\<open>_decompose_sparse_tensors\<close>", "every expanded name can be uniquely mapped back to the
  original column name"). The two expressions are compiled without \<^verbatim>\<open>re.DOTALL\<close>, so
  \<^verbatim>\<open>(.*)\<close> does not run over a newline: for a column whose name holds one, the key that
  the decomposition produced is refused by the recomposition as an unexpected key,
  whatever the runtime. For names without a newline, and sparse values that the
  constructor accepts, the round trip holds (\<open>roundtrip_without_newline\<close>).
\<close>

theorem roundtrip_fails_on_newline:
  "recompose_sparse_tensors rt (decompose_sparse_tensors [(''a'' @ newline # ''b'', Dense (1::nat))])
     = Inl (UnrecognizedKey (''a'' @ newline # ''b$dense_tensor''))"
  by code_simp

text \<open>
  Claim C8. The claim has the recomposition fail with \<open>UnrecognizedKey\<close> exactly when
  some key does not end in one of the four suffixes. The same treatment of the newline by
  the two expressions breaks both directions: the three keys of a sparse column whose name
  holds a newline end in recognized suffixes and are refused; and a key that ends in a
  newline after the suffix does not end in a suffix and is accepted (\<^verbatim>\<open>$\<close> also matches
  before a final newline), after which it is either ignored or met with a \<^verbatim>\<open>KeyError\<close>.
  For keys without a newline the claim holds (\<open>unrecognized_iff_without_newline\<close>).
\<close>

theorem unrecognized_key_newline_cases:
  "recompose_sparse_tensors rt
      [(''a'' @ newline # ''b$indices'', 1::nat), (''a'' @ newline # ''b$values'', 2),
       (''a'' @ newline # ''b$dense_shape'', 3)]
     = Inl (UnrecognizedKey (''a'' @ newline # ''b$indices''))
   \<and> recompose_sparse_tensors rt [(''a$dense_tensor'' @ [newline], 1::nat), (''a$dense_tensor'', 2)]
     = Inr [(''a'', Dense 2)]
   \<and> recompose_sparse_tensors rt [(''a$indices'' @ [newline], 1::nat)] = Inl KeyError"
  by code_simp

subsection \<open>Unexpected inputs\<close>

lemma apply_propagates:
  "partially_apply_saved_transform loader tf rt dir ins dg = (Inl e, dg')
     \<Longrightarrow> apply_saved_transform loader tf rt dir ins dg = (Inl e, dg')"
  by (simp add: apply_saved_transform_def)

text \<open>
  Claim C3, as amended. The claim has the error name the offending logical names, \<open>{b}\<close>
  in its example. The check compares the flat keys of the caller's inputs with the keys of
  the input signature, and the error carries their difference: a set of flat keys,
  \<open>{b$dense_tensor}\<close> in the example. So: when the artifact loads, and the caller's
  inputs hold a logical name one of whose flat keys the input signature lacks,
  \<^verbatim>\<open>partially_apply_saved_transform\<close>, and \<^verbatim>\<open>apply_saved_transform\<close> with it, fails with
  \<open>UnexpectedInput\<close> naming exactly the flat keys of the caller's inputs that the input
  signature lacks, and the graph is left as it was.
\<close>

theorem unexpected_input_names_flat_keys:
  assumes "load_transform_saved_model loader dir = Inr (mg, isig, osig)"
      and "(n, v) \<in> set ins"
      and "\<not> set (keys (decompose_step (n, v) [])) \<subseteq> set (keys isig)"
  shows "partially_apply_saved_transform loader tf rt dir ins dg
           = (Inl (UnexpectedInput (set (keys (decompose_sparse_tensors ins)) - set (keys isig))), dg)
       \<and> apply_saved_transform loader tf rt dir ins dg
           = (Inl (UnexpectedInput (set (keys (decompose_sparse_tensors ins)) - set (keys isig))), dg)
       \<and> set (keys (decompose_sparse_tensors ins)) - set (keys isig)
           = {k. \<exists>p \<in> set ins. k \<in> set (keys (decompose_step p [])) \<and> k \<notin> set (keys isig)}"
proof -
  from assms(2,3) have ne: "set (keys (decompose_sparse_tensors ins)) - set (keys isig) \<noteq> {}"
    unfolding keys_decompose by blast
  have p: "partially_apply_saved_transform loader tf rt dir ins dg
           = (Inl (UnexpectedInput (set (keys (decompose_sparse_tensors ins)) - set (keys isig))), dg)"
    by (rule partially_apply_rejects [OF assms(1) ne])
  have "set (keys (decompose_sparse_tensors ins)) - set (keys isig)
           = {k. \<exists>p \<in> set ins. k \<in> set (keys (decompose_step p [])) \<and> k \<notin> set (keys isig)}"
    unfolding keys_decompose by blast
  with p apply_propagates [OF p] show ?thesis by blast
qed

lemma demo_load:
  "load_transform_saved_model (demo_loader (demo_fragment [''a$dense_tensor''] [''c$dense_tensor'']) []) ''dir''
     = Inr (demo_fragment [''a$dense_tensor''] [''c$dense_tensor''],
            [(''a$dense_tensor'', ''a$dense_tensor:0'')], [(''c$dense_tensor'', ''c$dense_tensor:0'')])"
  by code_simp

theorem unexpected_input_names_flat_keys_witness:
  "partially_apply_saved_transform
      (demo_loader (demo_fragment [''a$dense_tensor''] [''c$dense_tensor'']) []) demo_tf demo_runtime ''dir''
      [(''a'', Dense ''v1''), (''b'', Dense ''v2'')] (Some [(''v1'', ''v1''), (''v2'', ''v2'')])
     = (Inl (UnexpectedInput {''b$dense_tensor''}), Some [(''v1'', ''v1''), (''v2'', ''v2'')])
   \<and> apply_saved_transform
      (demo_loader (demo_fragment [''a$dense_tensor''] [''c$dense_tensor'']) []) demo_tf demo_runtime ''dir''
      [(''a'', Dense ''v1''), (''b'', Dense ''v2'')] (Some [(''v1'', ''v1''), (''v2'', ''v2'')])
     = (Inl (UnexpectedInput {''b$dense_tensor''}), Some [(''v1'', ''v1''), (''v2'', ''v2'')])"
proof -
  let ?ins = "[(''a'', Dense ''v1''), (''b'', Dense ''v2'')]"
  have 1: "(''b'', Dense ''v2'') \<in> set ?ins" by simp
  have 2: "\<not> set (keys (decompose_step (''b'', Dense ''v2'') []))
             \<subseteq> set (keys [(''a$dense_tensor'', ''a$dense_tensor:0'')])"
    by (simp add: keys_def)
  have 3: "set (keys (decompose_sparse_tensors ?ins)) - set (keys [(''a$dense_tensor'', ''a$dense_tensor:0'')])
            = {''b$dense_tensor''}"
    by (simp add: keys_def decompose_sparse_tensors_def)
  from unexpected_input_names_flat_keys [OF demo_load 1 2, where tf = demo_tf
      and rt = demo_runtime and dg = "Some [(''v1'', ''v1''), (''v2'', ''v2'')]"]
  show ?thesis unfolding 3 by blast
qed

text \<open>
  The claim as stated fails on its own example, whether the input signature \<open>{a}\<close> is
  read as the flat key of the dense column \<open>a\<close> or as the key \<open>a\<close> itself.
\<close>

theorem unexpected_input_logical_names_counterexample:
  "fst (partially_apply_saved_transform
      (demo_loader (demo_fragment [''a$dense_tensor''] [''c$dense_tensor'']) []) demo_tf demo_runtime ''dir''
      [(''a'', Dense ''v1''), (''b'', Dense ''v2'')] (Some [(''v1'', ''v1''), (''v2'', ''v2'')]))
     \<noteq> Inl (UnexpectedInput {''b''})
   \<and> fst (partially_apply_saved_transform
      (demo_loader (demo_fragment [''a''] [''c'']) []) demo_tf demo_runtime ''dir''
      [(''a'', Dense ''v1''), (''b'', Dense ''v2'')] (Some [(''v1'', ''v1''), (''v2'', ''v2'')]))
     \<noteq> Inl (UnexpectedInput {''b''})"
proof -
  have 1: "partially_apply_saved_transform
      (demo_loader (demo_fragment [''a$dense_tensor''] [''c$dense_tensor'']) []) demo_tf demo_runtime ''dir''
      [(''a'', Dense ''v1''), (''b'', Dense ''v2'')] (Some [(''v1'', ''v1''), (''v2'', ''v2'')])
     = (Inl (UnexpectedInput {''b$dense_tensor''}), Some [(''v1'', ''v1''), (''v2'', ''v2'')])"
    by code_simp
  have 2: "partially_apply_saved_transform
      (demo_loader (demo_fragment [''a''] [''c'']) []) demo_tf demo_runtime ''dir''
      [(''a'', Dense ''v1''), (''b'', Dense ''v2'')] (Some [(''v1'', ''v1''), (''v2'', ''v2'')])
     = (Inl (UnexpectedInput {''a$dense_tensor'', ''b$dense_tensor''}), Some [(''v1'', ''v1''), (''v2'', ''v2'')])"
    by code_simp
  have 3: "{''b$dense_tensor''} \<noteq> {''b''}" by simp
  have 4: "{''a$dense_tensor'', ''b$dense_tensor''} \<noteq> {''b''}" by auto
  show ?thesis unfolding 1 2 using 3 4 by simp
qed

subsection \<open>The steps of a partial application\<close>

lemma dict_of_distinct: "distinct (map fst kvs) \<Longrightarrow> dict_of kvs = kvs"
  unfolding dict_of_def using fold_update_fresh [of "[]" kvs] by simp

lemma fold_update_keys_distinct:
  "distinct (map fst acc) \<Longrightarrow> distinct (map fst (fold (\<lambda>(k, v) d. AList.update k v d) kvs acc))"
proof (induction kvs arbitrary: acc)
  case Nil
  then show ?case by simp
next
  case (Cons kv kvs)
  obtain k v where kv: "kv = (k, v)" by (cases kv)
  from Cons.prems have "distinct (map fst (AList.update k v acc))" by (rule distinct_update)
  from Cons.IH [OF this] kv show ?case by simp
qed

lemma distinct_dict_of: "distinct (keys (dict_of kvs))"
  unfolding dict_of_def keys_def by (rule fold_update_keys_distinct) simp

lemma fold_update_mem:
  "(k, v) \<in> set (fold (\<lambda>(k, v) d. AList.update k v d) kvs acc) \<Longrightarrow> (k, v) \<in> set kvs \<union> set acc"
proof (induction kvs arbitrary: acc)
  case Nil
  then show ?case by simp
next
  case (Cons kv kvs)
  obtain k' v' where kv: "kv = (k', v')" by (cases kv)
  from Cons.prems kv have "(k, v) \<in> set (fold (\<lambda>(k, v) d. AList.update k v d) kvs (AList.update k' v' acc))"
    by simp
  from Cons.IH [OF this] have "(k, v) \<in> set kvs \<or> (k, v) \<in> set (AList.update k' v' acc)" by blast
  moreover have "set (AList.update k' v' acc) \<subseteq> insert (k', v') (set acc)"
    by (induction acc) auto
  ultimately show ?case using kv by auto
qed

lemma dict_of_mem: "map_of (dict_of kvs) k = Some v \<Longrightarrow> (k, v) \<in> set kvs"
  unfolding dict_of_def using fold_update_mem [of k v kvs "[]"] by (auto dest: map_of_SomeD)

lemma keys_dict_of: "set (keys (dict_of kvs)) = fst ` set kvs"
proof -
  have "fst ` set (fold (\<lambda>(k, v) d. AList.update k v d) kvs acc) = fst ` set kvs \<union> fst ` set acc" for acc
  proof (induction kvs arbitrary: acc)
    case Nil
    then show ?case by simp
  next
    case (Cons kv kvs)
    obtain k v where kv: "kv = (k, v)" by (cases kv)
    show ?case using Cons.IH [of "AList.update k v acc"] kv by (auto simp: dom_update)
  qed
  from this [of "[]"] show ?thesis by (simp add: dict_of_def keys_def)
qed

lemma load_distinct:
  assumes "load_transform_saved_model loader dir = Inr (mg, isig, osig)"
  shows "distinct (keys isig) \<and> distinct (keys osig)"
  using assms unfolding load_transform_saved_model_def Let_def
  by (auto split: sum.splits if_splits simp: distinct_dict_of)

lemma collect_Inr:
  "collect f xs = Inr ys \<Longrightarrow> list_all2 (\<lambda>x y. f x = Inr y) xs ys"
proof (induction xs arbitrary: ys)
  case Nil
  then show ?case by simp
next
  case (Cons x xs)
  then show ?case by (auto split: sum.splits)
qed

text \<open>A comprehension over the items of a dict that keeps the keys.\<close>

lemma collect_items:
  assumes c: "collect (\<lambda>(k, a). case f a of Inl e \<Rightarrow> Inl e | Inr t \<Rightarrow> Inr (k, t)) items = Inr kvs"
      and d: "distinct (keys items)"
  shows "dict_of kvs = kvs \<and> keys kvs = keys items
       \<and> (\<forall>(k, a) \<in> set items. \<exists>t. f a = Inr t \<and> map_of kvs k = Some t)"
proof -
  let ?g = "\<lambda>(k, a). case f a of Inl e \<Rightarrow> Inl e | Inr t \<Rightarrow> Inr (k, t)"
  from collect_Inr [OF c] have l: "list_all2 (\<lambda>x y. ?g x = Inr y) items kvs" .
  have rel: "list_all2 (\<lambda>x y. fst y = fst x \<and> f (snd x) = Inr (snd y)) items kvs"
    by (rule list_all2_mono [OF l]) (auto split: sum.splits prod.splits)
  then have k: "map fst kvs = map fst items"
    by (induction rule: list_all2_induct) auto
  with d have dk: "distinct (map fst kvs)" by (simp add: keys_def)
  have "\<exists>t. f a = Inr t \<and> map_of kvs k = Some t" if "(k, a) \<in> set items" for k a
  proof -
    from that obtain i where i: "i < length items" "items ! i = (k, a)" by (auto simp: in_set_conv_nth)
    with rel have "fst (kvs ! i) = k" "f a = Inr (snd (kvs ! i))" "i < length kvs"
      by (auto simp: list_all2_conv_all_nth)
    then have "(k, snd (kvs ! i)) \<in> set kvs" by (metis nth_mem prod.collapse)
    with dk have "map_of kvs k = Some (snd (kvs ! i))" by (rule map_of_is_SomeI)
    with \<open>f a = Inr (snd (kvs ! i))\<close> show ?thesis by blast
  qed
  with k dk show ?thesis by (auto simp: keys_def dict_of_distinct)
qed

lemma resolve_outputs_Inr:
  assumes "resolve_outputs tf g sc im osig = Inr flat" and "distinct (keys osig)"
  shows "keys flat = keys osig
       \<and> (\<forall>(k, tn) \<in> set osig. \<exists>t. lookup_remapped_tensor tf g sc im tn = Inr t \<and> map_of flat k = Some t)"
proof -
  from assms(1) obtain kvs where
    c: "collect (\<lambda>(k, tn). case lookup_remapped_tensor tf g sc im tn of Inl e \<Rightarrow> Inl e | Inr t \<Rightarrow> Inr (k, t)) osig = Inr kvs"
    and f: "flat = dict_of kvs"
    unfolding resolve_outputs_def by (auto split: sum.splits)
  from collect_items [OF c assms(2)] f show ?thesis by simp
qed

lemma resolve_unbound_inputs_Inr:
  assumes "resolve_unbound_inputs tf g sc d isig = Inr flat" and "distinct (keys isig)"
  shows "keys flat = filter (\<lambda>k. k \<notin> set (keys d)) (keys isig)
       \<and> (\<forall>(k, tn) \<in> set isig. k \<notin> set (keys d) \<longrightarrow>
             (\<exists>t. scoped_lookup tf g sc tn = Inr t \<and> map_of flat k = Some t))"
proof -
  let ?items = "filter (\<lambda>(k, tn). k \<notin> set (keys d)) isig"
  from assms(1) obtain kvs where
    c: "collect (\<lambda>(k, tn). case scoped_lookup tf g sc tn of Inl e \<Rightarrow> Inl e | Inr t \<Rightarrow> Inr (k, t)) ?items = Inr kvs"
    and f: "flat = dict_of kvs"
    unfolding resolve_unbound_inputs_def by (auto split: sum.splits)
  have k: "keys ?items = filter (\<lambda>k. k \<notin> set (keys d)) (keys isig)"
    by (simp add: keys_def filter_map comp_def case_prod_beta')
  with assms(2) have "distinct (keys ?items)" by simp
  from collect_items [OF c this] f k show ?thesis by auto
qed

lemma build_input_map_Inr:
  assumes "build_input_map isig d = Inr im"
  shows "(\<forall>tn t. map_of im tn = Some t \<longrightarrow> (\<exists>k. map_of isig k = Some tn \<and> map_of d k = Some t))
       \<and> set (keys im) = {tn. \<exists>k \<in> set (keys d). map_of isig k = Some tn}"
proof -
  let ?f = "\<lambda>k. case getitem isig k of Inl e \<Rightarrow> Inl e
                 | Inr tn \<Rightarrow> (case getitem d k of Inl e \<Rightarrow> Inl e | Inr t \<Rightarrow> Inr (tn, t))"
  from assms obtain kvs where c: "collect ?f (keys d) = Inr kvs" and im: "im = dict_of kvs"
    unfolding build_input_map_def by (auto split: sum.splits)
  from collect_Inr [OF c] have l: "list_all2 (\<lambda>k y. ?f k = Inr y) (keys d) kvs" .
  have each: "?f k = Inr (tn, t) \<longleftrightarrow> map_of isig k = Some tn \<and> map_of d k = Some t" for k tn t
    by (auto simp: getitem_def split: option.splits)
  have 1: "\<exists>k. map_of isig k = Some tn \<and> map_of d k = Some t" if "map_of im tn = Some t" for tn t
  proof -
    from that im have "(tn, t) \<in> set kvs" by (auto dest: dict_of_mem)
    then obtain i where "i < length kvs" "kvs ! i = (tn, t)" by (auto simp: in_set_conv_nth)
    with l have "?f (keys d ! i) = Inr (tn, t)" by (auto simp: list_all2_conv_all_nth)
    then show ?thesis unfolding each by blast
  qed
  have 2: "fst ` set kvs = {tn. \<exists>k \<in> set (keys d). map_of isig k = Some tn}"
  proof (intro set_eqI iffI)
    fix tn assume "tn \<in> fst ` set kvs"
    then obtain t where "(tn, t) \<in> set kvs" by auto
    then obtain i where i: "i < length kvs" "kvs ! i = (tn, t)" by (auto simp: in_set_conv_nth)
    with l have "?f (keys d ! i) = Inr (tn, t)" "i < length (keys d)"
      by (auto simp: list_all2_conv_all_nth)
    then show "tn \<in> {tn. \<exists>k \<in> set (keys d). map_of isig k = Some tn}"
      unfolding each using nth_mem by blast
  next
    fix tn assume "tn \<in> {tn. \<exists>k \<in> set (keys d). map_of isig k = Some tn}"
    then obtain k where k: "k \<in> set (keys d)" "map_of isig k = Some tn" by blast
    then obtain i where i: "i < length (keys d)" "keys d ! i = k" by (auto simp: in_set_conv_nth)
    with l have y: "?f k = Inr (kvs ! i)" "i < length kvs" by (auto simp: list_all2_conv_all_nth)
    with k(2) have "fst (kvs ! i) = tn"
      by (auto simp: getitem_def split: option.splits sum.splits dest: sym)
    with y(2) show "tn \<in> fst ` set kvs" by (metis nth_mem image_eqI)
  qed
  from 1 2 im show ?thesis by (simp add: keys_dict_of)
qed

text \<open>The steps of a partial application that succeeds.\<close>

lemma partially_apply_Inr:
  fixes tf :: "('mg, 'g, 't) tf_graph"
  assumes "partially_apply_saved_transform loader tf rt dir ins dg = (Inr (unbound, outs), dg')"
  shows "\<exists>mg isig osig im graph saver graph' fo fu.
      load_transform_saved_model loader dir = Inr (mg, isig, osig)
    \<and> set (keys (decompose_sparse_tensors ins)) \<subseteq> set (keys isig)
    \<and> build_input_map isig (decompose_sparse_tensors ins) = Inr im
    \<and> dg = Some graph
    \<and> import_meta_graph tf mg (unique_name tf graph ''transform'') im graph = (Inr saver, graph')
    \<and> dg' = Some graph'
    \<and> resolve_outputs tf graph' (unique_name tf graph ''transform'') im osig = Inr fo
    \<and> resolve_unbound_inputs tf graph' (unique_name tf graph ''transform'')
          (decompose_sparse_tensors ins) isig = Inr fu
    \<and> recompose_sparse_tensors rt fo = Inr outs
    \<and> recompose_sparse_tensors rt fu = Inr unbound"
  using assms
  unfolding partially_apply_saved_transform_def Let_def
  by (auto split: sum.splits prod.splits if_splits option.splits)

lemma lookup_remapped_tensor_Inr:
  assumes "lookup_remapped_tensor tf g sc im tn = Inr t"
  shows "(tn \<in> set (keys im) \<longrightarrow> map_of im tn = Some t)
       \<and> (tn \<notin> set (keys im) \<longrightarrow> get_tensor_by_name tf g (prepend_name_scope tf tn sc) = Inr t)"
  using assms
  by (auto simp: lookup_remapped_tensor_def scoped_lookup_def external_def getitem_Inr
        split: if_splits sum.splits)

lemma scoped_lookup_Inr:
  "scoped_lookup tf g sc tn = Inr t
     \<longleftrightarrow> get_tensor_by_name tf g (prepend_name_scope tf tn sc) = Inr t"
  by (auto simp: scoped_lookup_def external_def split: sum.splits)

subsection \<open>Outputs\<close>

text \<open>
  Claim C2. When \<^verbatim>\<open>partially_apply_saved_transform\<close> returns, the outputs it returns are
  the recomposition of a flat dict with the keys of the output signature, in which an
  entry whose tensor name is a key of the input map holds the value of the input map
  there, a flat input of the caller whose signature entry has that tensor name, and an
  entry whose tensor name is not a key of the input map holds the tensor that the graph
  after the import gives for the tensor name with the scope prepended, the scope being
  the unique name taken from the graph before the import. A flat entry
  \<open>name$dense_tensor\<close> is the dense output \<open>name\<close>, and the three flat entries of a
  sparse suffix under a name without a dense entry are the sparse output of that name.
\<close>

theorem outputs_resolved:
  fixes tf :: "('mg, 'g, 't) tf_graph"
  assumes "partially_apply_saved_transform loader tf rt dir ins dg = (Inr (unbound, outs), dg')"
  shows "\<exists>mg isig osig input_map graph saver graph' flat.
      load_transform_saved_model loader dir = Inr (mg, isig, osig)
    \<and> build_input_map isig (decompose_sparse_tensors ins) = Inr input_map
    \<and> dg = Some graph \<and> dg' = Some graph'
    \<and> import_meta_graph tf mg (unique_name tf graph ''transform'') input_map graph
        = (Inr saver, graph')
    \<and> recompose_sparse_tensors rt flat = Inr outs
    \<and> keys flat = keys osig
    \<and> (\<forall>(k, tn) \<in> set osig.
          (tn \<in> set (keys input_map) \<longrightarrow>
             map_of flat k = map_of input_map tn
             \<and> (\<exists>k'. map_of isig k' = Some tn
                    \<and> map_of (decompose_sparse_tensors ins) k' = map_of flat k))
        \<and> (tn \<notin> set (keys input_map) \<longrightarrow>
             (\<exists>t. get_tensor_by_name tf graph'
                     (prepend_name_scope tf tn (unique_name tf graph ''transform'')) = Inr t
                 \<and> map_of flat k = Some t)))
    \<and> (\<forall>n t. map_of flat (n @ ''$dense_tensor'') = Some t \<longrightarrow> map_of outs n = Some (Dense t))
    \<and> (\<forall>n s. s \<in> set sparse_suffixes \<and> n @ dollar # s \<in> set (keys flat)
               \<and> n @ ''$dense_tensor'' \<notin> set (keys flat) \<longrightarrow>
          (\<exists>i v d. map_of flat (n @ ''$indices'') = Some i \<and> map_of flat (n @ ''$values'') = Some v
             \<and> map_of flat (n @ ''$dense_shape'') = Some d \<and> map_of outs n = Some (Sparse i v d)))"
proof -
  from partially_apply_Inr [OF assms] obtain mg isig osig im graph saver graph' fo fu where
    l: "load_transform_saved_model loader dir = Inr (mg, isig, osig)" and
    b: "build_input_map isig (decompose_sparse_tensors ins) = Inr im" and
    g: "dg = Some graph" "dg' = Some graph'" and
    i: "import_meta_graph tf mg (unique_name tf graph ''transform'') im graph = (Inr saver, graph')" and
    ro: "resolve_outputs tf graph' (unique_name tf graph ''transform'') im osig = Inr fo" and
    rc: "recompose_sparse_tensors rt fo = Inr outs"
    by blast
  from load_distinct [OF l] have d: "distinct (keys osig)" by simp
  note R = resolve_outputs_Inr [OF ro d]
  note B = build_input_map_Inr [OF b]
  have each: "(tn \<in> set (keys im) \<longrightarrow>
             map_of fo k = map_of im tn
             \<and> (\<exists>k'. map_of isig k' = Some tn
                    \<and> map_of (decompose_sparse_tensors ins) k' = map_of fo k))
        \<and> (tn \<notin> set (keys im) \<longrightarrow>
             (\<exists>t. get_tensor_by_name tf graph'
                     (prepend_name_scope tf tn (unique_name tf graph ''transform'')) = Inr t
                 \<and> map_of fo k = Some t))" if "(k, tn) \<in> set osig" for k tn
  proof -
    from R that obtain t where
      t: "lookup_remapped_tensor tf graph' (unique_name tf graph ''transform'') im tn = Inr t"
         "map_of fo k = Some t" by blast
    note L = lookup_remapped_tensor_Inr [OF t(1)]
    show ?thesis
    proof (cases "tn \<in> set (keys im)")
      case True
      with L have m: "map_of im tn = Some t" by simp
      with B obtain k' where "map_of isig k' = Some tn"
        "map_of (decompose_sparse_tensors ins) k' = Some t" by blast
      with True m t(2) show ?thesis by auto
    next
      case False
      with L t(2) show ?thesis by simp
    qed
  qed
  have dense: "\<forall>n t. map_of fo (n @ ''$dense_tensor'') = Some t \<longrightarrow> map_of outs n = Some (Dense t)"
    using recompose_dense_entry [OF rc] by blast
  have sparse: "\<forall>n s. s \<in> set sparse_suffixes \<and> n @ dollar # s \<in> set (keys fo)
               \<and> n @ ''$dense_tensor'' \<notin> set (keys fo) \<longrightarrow>
          (\<exists>i v d. map_of fo (n @ ''$indices'') = Some i \<and> map_of fo (n @ ''$values'') = Some v
             \<and> map_of fo (n @ ''$dense_shape'') = Some d \<and> map_of outs n = Some (Sparse i v d))"
    using recompose_sparse_entry [OF rc] by blast
  from R have kf: "keys fo = keys osig" by simp
  from each have all: "\<forall>(k, tn) \<in> set osig.
          (tn \<in> set (keys im) \<longrightarrow>
             map_of fo k = map_of im tn
             \<and> (\<exists>k'. map_of isig k' = Some tn
                    \<and> map_of (decompose_sparse_tensors ins) k' = map_of fo k))
        \<and> (tn \<notin> set (keys im) \<longrightarrow>
             (\<exists>t. get_tensor_by_name tf graph'
                     (prepend_name_scope tf tn (unique_name tf graph ''transform'')) = Inr t
                 \<and> map_of fo k = Some t))"
    by blast
  show ?thesis
    apply (rule exI [of _ mg], rule exI [of _ isig], rule exI [of _ osig], rule exI [of _ im])
    apply (rule exI [of _ graph], rule exI [of _ saver], rule exI [of _ graph'], rule exI [of _ fo])
    using l b g i rc kf all dense sparse by (intro conjI)
qed

theorem outputs_resolved_witness:
  "partially_apply_saved_transform
     (demo_loader (demo_fragment [''a$dense_tensor'', ''b$dense_tensor'']
                                 [''a$dense_tensor'', ''c$dense_tensor'']) [])
     demo_tf demo_runtime ''dir'' [(''a'', Dense ''v1'')] (Some [(''v1'', ''v1'')])
    = (Inr ([(''b'', Dense ''transform/b$dense_tensor:0'')],
            [(''a'', Dense ''v1''), (''c'', Dense ''transform/c$dense_tensor:0'')]),
       Some [(''v1'', ''v1''),
             (''transform/b$dense_tensor:0'', ''transform/b$dense_tensor:0''),
             (''transform/c$dense_tensor:0'', ''transform/c$dense_tensor:0'')])
   \<and> (\<exists>flat. recompose_sparse_tensors demo_runtime flat
                 = Inr [(''a'', Dense ''v1''), (''c'', Dense ''transform/c$dense_tensor:0'')]
            \<and> keys flat = [''a$dense_tensor'', ''c$dense_tensor'']
            \<and> map_of flat ''a$dense_tensor'' = Some ''v1''
            \<and> map_of flat ''c$dense_tensor'' = Some ''transform/c$dense_tensor:0'')"
proof -
  let ?L = "demo_loader (demo_fragment [''a$dense_tensor'', ''b$dense_tensor'']
                                 [''a$dense_tensor'', ''c$dense_tensor'']) []"
  let ?isig = "[(''a$dense_tensor'', ''a$dense_tensor:0''), (''b$dense_tensor'', ''b$dense_tensor:0'')]"
  let ?osig = "[(''a$dense_tensor'', ''a$dense_tensor:0''), (''c$dense_tensor'', ''c$dense_tensor:0'')]"
  let ?g' = "[(''v1'', ''v1''),
             (''transform/b$dense_tensor:0'', ''transform/b$dense_tensor:0''),
             (''transform/c$dense_tensor:0'', ''transform/c$dense_tensor:0'')]"
  have h: "partially_apply_saved_transform ?L demo_tf demo_runtime ''dir'' [(''a'', Dense ''v1'')]
             (Some [(''v1'', ''v1'')])
    = (Inr ([(''b'', Dense ''transform/b$dense_tensor:0'')],
            [(''a'', Dense ''v1''), (''c'', Dense ''transform/c$dense_tensor:0'')]), Some ?g')"
    by code_simp
  have l: "load_transform_saved_model ?L ''dir''
             = Inr (demo_fragment [''a$dense_tensor'', ''b$dense_tensor'']
                                 [''a$dense_tensor'', ''c$dense_tensor''], ?isig, ?osig)"
    by code_simp
  have b: "build_input_map ?isig (decompose_sparse_tensors [(''a'', Dense ''v1'')])
             = Inr [(''a$dense_tensor:0'', ''v1'')]"
    by code_simp
  from outputs_resolved [OF h] obtain mg isig osig im graph saver graph' flat where
    1: "load_transform_saved_model ?L ''dir'' = Inr (mg, isig, osig)" and
    2: "build_input_map isig (decompose_sparse_tensors [(''a'', Dense ''v1'')]) = Inr im" and
    3: "Some [(''v1'', ''v1'')] = Some graph" "Some ?g' = Some graph'" and
    4: "recompose_sparse_tensors demo_runtime flat
          = Inr [(''a'', Dense ''v1''), (''c'', Dense ''transform/c$dense_tensor:0'')]" and
    5: "keys flat = keys osig" and
    6: "\<forall>(k, tn) \<in> set osig.
          (tn \<in> set (keys im) \<longrightarrow>
             map_of flat k = map_of im tn
             \<and> (\<exists>k'. map_of isig k' = Some tn
                    \<and> map_of (decompose_sparse_tensors [(''a'', Dense ''v1'')]) k' = map_of flat k))
        \<and> (tn \<notin> set (keys im) \<longrightarrow>
             (\<exists>t. get_tensor_by_name demo_tf graph'
                     (prepend_name_scope demo_tf tn (unique_name demo_tf graph ''transform'')) = Inr t
                 \<and> map_of flat k = Some t))"
    by blast
  from 1 l have s: "isig = ?isig" "osig = ?osig" by simp_all
  from 2 b s have im: "im = [(''a$dense_tensor:0'', ''v1'')]" by simp
  from 3 have g: "graph = [(''v1'', ''v1'')]" "graph' = ?g'" by simp_all
  from 6 have a: "map_of flat ''a$dense_tensor'' = Some ''v1''"
    unfolding s im by (simp add: keys_def)
  from 6 have c: "map_of flat ''c$dense_tensor'' = Some ''transform/c$dense_tensor:0''"
    unfolding s im g by (simp add: keys_def demo_tf_def)
  from 5 s have k: "keys flat = [''a$dense_tensor'', ''c$dense_tensor'']" by (simp add: keys_def)
  from h 4 k a c show ?thesis by blast
qed

subsection \<open>Unbound inputs\<close>

text \<open>
  Claim C5. When \<^verbatim>\<open>partially_apply_saved_transform\<close> returns, the unbound inputs it
  returns are the recomposition of a flat dict that has one entry for each entry of the
  input signature whose key is not a flat key of the caller's inputs, and no other, each
  holding the tensor that the graph after the import gives for the tensor name with the
  scope prepended. A flat entry \<open>name$dense_tensor\<close> is the dense unbound input
  \<open>name\<close>, and the three flat entries of a sparse suffix under a name without a dense
  entry are the sparse unbound input of that name. The unbound inputs are empty exactly when the caller gave every key of the
  input signature. In the example, the input signature is that of a fragment frozen with
  the dense inputs \<open>a\<close> and \<open>b\<close>: with \<open>a\<close> alone the unbound inputs are \<open>b\<close> and
  the output \<open>c\<close> is resolved; with both they are empty.
\<close>

theorem unbound_inputs_resolved:
  fixes tf :: "('mg, 'g, 't) tf_graph"
  assumes "partially_apply_saved_transform loader tf rt dir ins dg = (Inr (unbound, outs), dg')"
  shows "\<exists>mg isig osig input_map graph saver graph' flat.
      load_transform_saved_model loader dir = Inr (mg, isig, osig)
    \<and> build_input_map isig (decompose_sparse_tensors ins) = Inr input_map
    \<and> dg = Some graph \<and> dg' = Some graph'
    \<and> import_meta_graph tf mg (unique_name tf graph ''transform'') input_map graph
        = (Inr saver, graph')
    \<and> recompose_sparse_tensors rt flat = Inr unbound
    \<and> keys flat = filter (\<lambda>k. k \<notin> set (keys (decompose_sparse_tensors ins))) (keys isig)
    \<and> distinct (keys flat)
    \<and> (\<forall>(k, tn) \<in> set isig. k \<notin> set (keys (decompose_sparse_tensors ins)) \<longrightarrow>
          (\<exists>t. get_tensor_by_name tf graph'
                  (prepend_name_scope tf tn (unique_name tf graph ''transform'')) = Inr t
              \<and> map_of flat k = Some t))
    \<and> (\<forall>n t. map_of flat (n @ ''$dense_tensor'') = Some t \<longrightarrow> map_of unbound n = Some (Dense t))
    \<and> (\<forall>n s. s \<in> set sparse_suffixes \<and> n @ dollar # s \<in> set (keys flat)
               \<and> n @ ''$dense_tensor'' \<notin> set (keys flat) \<longrightarrow>
          (\<exists>i v d. map_of flat (n @ ''$indices'') = Some i \<and> map_of flat (n @ ''$values'') = Some v
             \<and> map_of flat (n @ ''$dense_shape'') = Some d \<and> map_of unbound n = Some (Sparse i v d)))
    \<and> (unbound = [] \<longleftrightarrow> set (keys isig) \<subseteq> set (keys (decompose_sparse_tensors ins)))"
proof -
  from partially_apply_Inr [OF assms] obtain mg isig osig im graph saver graph' fo fu where
    l: "load_transform_saved_model loader dir = Inr (mg, isig, osig)" and
    b: "build_input_map isig (decompose_sparse_tensors ins) = Inr im" and
    g: "dg = Some graph" "dg' = Some graph'" and
    i: "import_meta_graph tf mg (unique_name tf graph ''transform'') im graph = (Inr saver, graph')" and
    ru: "resolve_unbound_inputs tf graph' (unique_name tf graph ''transform'')
          (decompose_sparse_tensors ins) isig = Inr fu" and
    rc: "recompose_sparse_tensors rt fu = Inr unbound"
    by blast
  from load_distinct [OF l] have d: "distinct (keys isig)" by simp
  note R = resolve_unbound_inputs_Inr [OF ru d]
  from R have kf: "keys fu = filter (\<lambda>k. k \<notin> set (keys (decompose_sparse_tensors ins))) (keys isig)"
    by simp
  with d have df: "distinct (keys fu)" by simp
  from R have all: "\<forall>(k, tn) \<in> set isig. k \<notin> set (keys (decompose_sparse_tensors ins)) \<longrightarrow>
          (\<exists>t. get_tensor_by_name tf graph'
                  (prepend_name_scope tf tn (unique_name tf graph ''transform'')) = Inr t
              \<and> map_of fu k = Some t)"
    unfolding scoped_lookup_Inr by simp
  have dense: "\<forall>n t. map_of fu (n @ ''$dense_tensor'') = Some t \<longrightarrow> map_of unbound n = Some (Dense t)"
    using recompose_dense_entry [OF rc] by blast
  have sparse: "\<forall>n s. s \<in> set sparse_suffixes \<and> n @ dollar # s \<in> set (keys fu)
               \<and> n @ ''$dense_tensor'' \<notin> set (keys fu) \<longrightarrow>
          (\<exists>i v d. map_of fu (n @ ''$indices'') = Some i \<and> map_of fu (n @ ''$values'') = Some v
             \<and> map_of fu (n @ ''$dense_shape'') = Some d \<and> map_of unbound n = Some (Sparse i v d))"
    using recompose_sparse_entry [OF rc] by blast
  have "unbound = [] \<longleftrightarrow> fu = []" by (rule recompose_nonempty [OF rc])
  also have "\<dots> \<longleftrightarrow> keys fu = []" by (simp add: keys_def)
  also have "\<dots> \<longleftrightarrow> set (keys isig) \<subseteq> set (keys (decompose_sparse_tensors ins))"
    unfolding kf by (auto simp: filter_empty_conv)
  finally have e: "unbound = [] \<longleftrightarrow> set (keys isig) \<subseteq> set (keys (decompose_sparse_tensors ins))" .
  show ?thesis
    apply (rule exI [of _ mg], rule exI [of _ isig], rule exI [of _ osig], rule exI [of _ im])
    apply (rule exI [of _ graph], rule exI [of _ saver], rule exI [of _ graph'], rule exI [of _ fu])
    using l b g i rc kf df all dense sparse e by (intro conjI)
qed

theorem unbound_inputs_resolved_witness:
  "partially_apply_saved_transform
     (demo_loader (demo_fragment [''a$dense_tensor'', ''b$dense_tensor''] [''c$dense_tensor'']) [])
     demo_tf demo_runtime ''dir'' [(''a'', Dense ''v1'')] (Some [(''v1'', ''v1'')])
    = (Inr ([(''b'', Dense ''transform/b$dense_tensor:0'')],
            [(''c'', Dense ''transform/c$dense_tensor:0'')]),
       Some [(''v1'', ''v1''),
             (''transform/b$dense_tensor:0'', ''transform/b$dense_tensor:0''),
             (''transform/c$dense_tensor:0'', ''transform/c$dense_tensor:0'')])
   \<and> (\<exists>flat. recompose_sparse_tensors demo_runtime flat = Inr [(''b'', Dense ''transform/b$dense_tensor:0'')]
            \<and> keys flat = [''b$dense_tensor'']
            \<and> map_of flat ''b$dense_tensor'' = Some ''transform/b$dense_tensor:0'')
   \<and> partially_apply_saved_transform
     (demo_loader (demo_fragment [''a$dense_tensor'', ''b$dense_tensor''] [''c$dense_tensor'']) [])
     demo_tf demo_runtime ''dir'' [(''a'', Dense ''v1''), (''b'', Dense ''v2'')]
     (Some [(''v1'', ''v1''), (''v2'', ''v2'')])
    = (Inr ([], [(''c'', Dense ''transform/c$dense_tensor:0'')]),
       Some [(''v1'', ''v1''), (''v2'', ''v2''),
             (''transform/c$dense_tensor:0'', ''transform/c$dense_tensor:0'')])"
proof -
  let ?L = "demo_loader (demo_fragment [''a$dense_tensor'', ''b$dense_tensor''] [''c$dense_tensor'']) []"
  let ?isig = "[(''a$dense_tensor'', ''a$dense_tensor:0''), (''b$dense_tensor'', ''b$dense_tensor:0'')]"
  let ?g' = "[(''v1'', ''v1''),
             (''transform/b$dense_tensor:0'', ''transform/b$dense_tensor:0''),
             (''transform/c$dense_tensor:0'', ''transform/c$dense_tensor:0'')]"
  have h: "partially_apply_saved_transform ?L demo_tf demo_runtime ''dir'' [(''a'', Dense ''v1'')]
             (Some [(''v1'', ''v1'')])
    = (Inr ([(''b'', Dense ''transform/b$dense_tensor:0'')],
            [(''c'', Dense ''transform/c$dense_tensor:0'')]), Some ?g')"
    by code_simp
  have h2: "partially_apply_saved_transform ?L demo_tf demo_runtime ''dir''
             [(''a'', Dense ''v1''), (''b'', Dense ''v2'')] (Some [(''v1'', ''v1''), (''v2'', ''v2'')])
    = (Inr ([], [(''c'', Dense ''transform/c$dense_tensor:0'')]),
       Some [(''v1'', ''v1''), (''v2'', ''v2''),
             (''transform/c$dense_tensor:0'', ''transform/c$dense_tensor:0'')])"
    by code_simp
  have l: "load_transform_saved_model ?L ''dir''
             = Inr (demo_fragment [''a$dense_tensor'', ''b$dense_tensor''] [''c$dense_tensor''],
                    ?isig, [(''c$dense_tensor'', ''c$dense_tensor:0'')])"
    by code_simp
  have d: "keys (decompose_sparse_tensors [(''a'', Dense ''v1'')]) = [''a$dense_tensor'']"
    by code_simp
  from unbound_inputs_resolved [OF h] obtain mg isig osig im graph saver graph' flat where
    1: "load_transform_saved_model ?L ''dir'' = Inr (mg, isig, osig)" and
    3: "Some [(''v1'', ''v1'')] = Some graph" "Some ?g' = Some graph'" and
    4: "recompose_sparse_tensors demo_runtime flat = Inr [(''b'', Dense ''transform/b$dense_tensor:0'')]" and
    5: "keys flat = filter (\<lambda>k. k \<notin> set (keys (decompose_sparse_tensors [(''a'', Dense ''v1'')])))
                      (keys isig)" and
    6: "\<forall>(k, tn) \<in> set isig. k \<notin> set (keys (decompose_sparse_tensors [(''a'', Dense ''v1'')])) \<longrightarrow>
          (\<exists>t. get_tensor_by_name demo_tf graph'
                  (prepend_name_scope demo_tf tn (unique_name demo_tf graph ''transform'')) = Inr t
              \<and> map_of flat k = Some t)"
    by blast
  from 1 l have s: "isig = ?isig" by simp
  from 3 have g: "graph = [(''v1'', ''v1'')]" "graph' = ?g'" by simp_all
  from 5 have k: "keys flat = [''b$dense_tensor'']" unfolding s d by (simp add: keys_def)
  from 6 have b: "map_of flat ''b$dense_tensor'' = Some ''transform/b$dense_tensor:0''"
    unfolding s d g by (simp add: demo_tf_def)
  from h h2 4 k b show ?thesis by blast
qed

subsection \<open>The total-binding wrapper\<close>

text \<open>
  Claim C6. \<^verbatim>\<open>apply_saved_transform\<close> calls \<^verbatim>\<open>partially_apply_saved_transform\<close>; when
  the unbound inputs it gets back are not empty it fails with \<open>MissingRequiredInputs\<close>,
  naming their logical names, and when they are empty it returns the outputs it got,
  unchanged. What the partial application raises, it raises. The graph is left as the
  partial application left it.
\<close>

theorem apply_total_binding:
  "(partially_apply_saved_transform loader tf rt dir ins dg = (Inr (unbound, outs), dg') \<and> unbound \<noteq> []
      \<longrightarrow> apply_saved_transform loader tf rt dir ins dg
            = (Inl (MissingRequiredInputs (set (keys unbound))), dg'))
   \<and> (partially_apply_saved_transform loader tf rt dir ins dg = (Inr ([], outs), dg')
      \<longrightarrow> apply_saved_transform loader tf rt dir ins dg = (Inr outs, dg'))
   \<and> (partially_apply_saved_transform loader tf rt dir ins dg = (Inl e, dg')
      \<longrightarrow> apply_saved_transform loader tf rt dir ins dg = (Inl e, dg'))"
  by (simp add: apply_saved_transform_def)

theorem apply_total_binding_witness:
  "apply_saved_transform
      (demo_loader (demo_fragment [''a$dense_tensor'', ''b$dense_tensor''] [''c$dense_tensor'']) [])
      demo_tf demo_runtime ''dir'' [(''a'', Dense ''v1'')] (Some [(''v1'', ''v1'')])
    = (Inl (MissingRequiredInputs {''b''}),
       Some [(''v1'', ''v1''), (''transform/b$dense_tensor:0'', ''transform/b$dense_tensor:0''),
             (''transform/c$dense_tensor:0'', ''transform/c$dense_tensor:0'')])
   \<and> apply_saved_transform
      (demo_loader (demo_fragment [''a$dense_tensor'', ''b$dense_tensor''] [''c$dense_tensor'']) [])
      demo_tf demo_runtime ''dir'' [(''a'', Dense ''v1''), (''b'', Dense ''v2'')]
      (Some [(''v1'', ''v1''), (''v2'', ''v2'')])
    = (Inr [(''c'', Dense ''transform/c$dense_tensor:0'')],
       Some [(''v1'', ''v1''), (''v2'', ''v2''),
             (''transform/c$dense_tensor:0'', ''transform/c$dense_tensor:0'')])"
proof -
  let ?L = "demo_loader (demo_fragment [''a$dense_tensor'', ''b$dense_tensor''] [''c$dense_tensor'']) []"
  let ?g1 = "[(''v1'', ''v1''), (''transform/b$dense_tensor:0'', ''transform/b$dense_tensor:0''),
             (''transform/c$dense_tensor:0'', ''transform/c$dense_tensor:0'')]"
  let ?g2 = "[(''v1'', ''v1''), (''v2'', ''v2''),
             (''transform/c$dense_tensor:0'', ''transform/c$dense_tensor:0'')]"
  have p1: "partially_apply_saved_transform ?L demo_tf demo_runtime ''dir'' [(''a'', Dense ''v1'')]
              (Some [(''v1'', ''v1'')])
      = (Inr ([(''b'', Dense ''transform/b$dense_tensor:0'')],
              [(''c'', Dense ''transform/c$dense_tensor:0'')]), Some ?g1)"
    by code_simp
  have p2: "partially_apply_saved_transform ?L demo_tf demo_runtime ''dir''
              [(''a'', Dense ''v1''), (''b'', Dense ''v2'')]
              (Some [(''v1'', ''v1''), (''v2'', ''v2'')])
      = (Inr ([], [(''c'', Dense ''transform/c$dense_tensor:0'')]), Some ?g2)"
    by code_simp
  from p1 apply_total_binding [of ?L demo_tf demo_runtime "''dir''" "[(''a'', Dense ''v1'')]"
      "Some [(''v1'', ''v1'')]" "[(''b'', Dense ''transform/b$dense_tensor:0'')]"
      "[(''c'', Dense ''transform/c$dense_tensor:0'')]" "Some ?g1"]
  have a1: "apply_saved_transform ?L demo_tf demo_runtime ''dir'' [(''a'', Dense ''v1'')] (Some [(''v1'', ''v1'')])
     = (Inl (MissingRequiredInputs {''b''}), Some ?g1)"
    by (simp add: keys_def)
  from p2 apply_total_binding [of ?L demo_tf demo_runtime "''dir''" "[(''a'', Dense ''v1''), (''b'', Dense ''v2'')]"
      "Some [(''v1'', ''v1''), (''v2'', ''v2'')]" _
      "[(''c'', Dense ''transform/c$dense_tensor:0'')]" "Some ?g2"]
  have a2: "apply_saved_transform ?L demo_tf demo_runtime ''dir'' [(''a'', Dense ''v1''), (''b'', Dense ''v2'')]
        (Some [(''v1'', ''v1''), (''v2'', ''v2'')])
     = (Inr [(''c'', Dense ''transform/c$dense_tensor:0'')], Some ?g2)"
    by simp
  from a1 a2 show ?thesis by simp
qed

subsection \<open>Freezing with an empty contract\<close>

text \<open>
  Claim C4. The claim has the freeze fail with \<open>EmptyContract\<close> when the input value map
  or the output value map is empty. \<^verbatim>\<open>_predict_signature_def\<close> tests the inputs with
  \<^verbatim>\<open>inputs is None or not inputs\<close> but the outputs with \<^verbatim>\<open>outputs is None\<close> alone, under a
  message that reads "outputs cannot be None or empty": with one dense input and no output
  at all it builds a signature with no outputs, and
  \<^verbatim>\<open>write_saved_transform_from_session\<close> goes on to the builder with it. Empty inputs are
  refused, as claimed; a map that is \<^verbatim>\<open>None\<close> never reaches the test, since flattening
  it raises first.
\<close>

theorem empty_outputs_accepted:
  "predict_signature_def builder (Some [(''a$dense_tensor'', t)]) (Some [])
     = Inr \<lparr>inputs = [(''a$dense_tensor'', build_tensor_info builder t)], outputs = [],
            method_name = PREDICT_METHOD_NAME\<rparr>
   \<and> write_saved_transform_from_session builder session (Some [(''a'', Dense t)]) (Some [])
        export_path as_text
     = external (add_meta_graph_and_save builder export_path session [TRANSFORM_TAG]
          [(''transform_signature'',
            \<lparr>inputs = [(''a$dense_tensor'', build_tensor_info builder t)], outputs = [],
             method_name = PREDICT_METHOD_NAME\<rparr>)] as_text)
   \<and> write_saved_transform_from_session demo_builder () (Some [(''a'', Dense ''t'')]) (Some [])
        ''path'' False
     = Inr ()
   \<and> write_saved_transform_from_session builder session (Some []) (Some [(''a'', Dense t)])
        export_path as_text
     = Inl (EmptyContract ''inputs cannot be None or empty for prediction.'')
   \<and> write_saved_transform_from_session builder session None (Some [(''a'', Dense t)])
        export_path as_text
     = Inl AttributeError"
  by (simp add: predict_signature_def_def write_saved_transform_from_session_def
        decompose_sparse_tensors_def dict_of_def demo_builder_def external_def)

subsection \<open>An unexpected input leaves the graph alone\<close>

text \<open>
  Claim C9. When \<^verbatim>\<open>partially_apply_saved_transform\<close> fails with \<open>UnexpectedInput\<close>, the
  default graph is the one it was called with, and the failure is the same whatever the
  graph functions are (the allocation of the scope, the import, the lookups) and whatever
  the runtime of the recomposition is: the check raises before any of them is called.
\<close>

theorem unexpected_input_leaves_graph:
  fixes tf :: "('mg, 'g, 't) tf_graph"
  assumes "fst (partially_apply_saved_transform loader tf rt dir ins dg) = Inl (UnexpectedInput S)"
  shows "snd (partially_apply_saved_transform loader tf rt dir ins dg) = dg
         \<and> (\<forall>tf' rt'. partially_apply_saved_transform loader tf' rt' dir ins dg
                    = (Inl (UnexpectedInput S), dg))"
proof -
  from partially_apply_unexpected [OF assms] obtain mg isig osig where
    l: "load_transform_saved_model loader dir = Inr (mg, isig, osig)" and
    s: "S = set (keys (decompose_sparse_tensors ins)) - set (keys isig)" and
    n: "S \<noteq> {}"
    by blast
  have "partially_apply_saved_transform loader tf' rt' dir ins dg = (Inl (UnexpectedInput S), dg)"
    for tf' :: "('mg, 'g, 't) tf_graph" and rt' :: "'t runtime"
    using partially_apply_rejects [OF l, where ins = ins and tf = tf' and rt = rt' and dg = dg] s n
    by simp
  then show ?thesis by simp
qed

theorem unexpected_input_leaves_graph_witness:
  "snd (partially_apply_saved_transform
          (demo_loader (demo_fragment [''a$dense_tensor''] [''c$dense_tensor'']) [])
          demo_tf demo_runtime ''dir'' [(''a'', Dense ''v1''), (''b'', Dense ''v2'')]
          (Some [(''v1'', ''v1''), (''v2'', ''v2'')]))
     = Some [(''v1'', ''v1''), (''v2'', ''v2'')]
   \<and> partially_apply_saved_transform
          (demo_loader (demo_fragment [''a$dense_tensor''] [''c$dense_tensor'']) [])
          (demo_tf\<lparr>import_meta_graph := (\<lambda>mg scope input_map g. (Inl ''failed'', []))\<rparr>)
          (demo_runtime\<lparr>visit_rank := length\<rparr>) ''dir'' [(''a'', Dense ''v1''), (''b'', Dense ''v2'')]
          (Some [(''v1'', ''v1''), (''v2'', ''v2'')])
     = (Inl (UnexpectedInput {''b$dense_tensor''}), Some [(''v1'', ''v1''), (''v2'', ''v2'')])"
proof -
  let ?L = "demo_loader (demo_fragment [''a$dense_tensor''] [''c$dense_tensor'']) []"
  let ?ins = "[(''a'', Dense ''v1''), (''b'', Dense ''v2'')]"
  let ?g = "Some [(''v1'', ''v1''), (''v2'', ''v2'')]"
  have "partially_apply_saved_transform ?L demo_tf demo_runtime ''dir'' ?ins ?g
          = (Inl (UnexpectedInput {''b$dense_tensor''}), ?g)"
    by code_simp
  then have "fst (partially_apply_saved_transform ?L demo_tf demo_runtime ''dir'' ?ins ?g)
          = Inl (UnexpectedInput {''b$dense_tensor''})"
    by simp
  from unexpected_input_leaves_graph [OF this] show ?thesis by simp
qed

end
